theory Spec2Isabelle
  imports Complex_Main "HOL-Library.Log_Nat" "HOL-Library.AList"
begin

section \<open>Values of the host language\<close>

text \<open>
  A JavaScript number is a finite binary64 number or one of the three special ones. A
  finite number is represented by the real number it denotes; comparisons follow the
  language (every comparison with \<open>NaN\<close> is false).
\<close>

datatype jsnum = Fin real | PosInf | NegInf | NaN

text \<open>A parsed JSON document, as \<open>res.json()\<close> and \<open>JSON.parse\<close> deliver it.\<close>

datatype json =
    JNull
  | JBool bool
  | JNum jsnum
  | JStr string
  | JArr "json list"
  | JObj "(string \<times> json) list"

fun isNaN :: "jsnum \<Rightarrow> bool" where
  "isNaN NaN = True"
| "isNaN _ = False"

fun isFinite :: "jsnum \<Rightarrow> bool" where
  "isFinite (Fin _) = True"
| "isFinite _ = False"

text \<open>The relational operators \<open><\<close> and \<open>>\<close> on numbers.\<close>

fun js_lt :: "jsnum \<Rightarrow> jsnum \<Rightarrow> bool" where
  "js_lt (Fin a) (Fin b) = (a < b)"
| "js_lt (Fin a) PosInf = True"
| "js_lt NegInf (Fin b) = True"
| "js_lt NegInf PosInf = True"
| "js_lt _ _ = False"

definition js_gt :: "jsnum \<Rightarrow> jsnum \<Rightarrow> bool" where
  "js_gt a b = js_lt b a"

subsection \<open>Arithmetic of binary64 numbers\<close>

text \<open>
  The arithmetic operators round their exact result to the nearest binary64 number, ties
  to the even significand. \<open>expo x\<close> is the binary exponent of \<open>x\<close>
  (\<open>2 ^ expo x \<le> |x| < 2 ^ (expo x + 1)\<close>); below \<open>2 ^ -1022\<close> the spacing stays
  that of the subnormal numbers, and a rounded magnitude of \<open>2 ^ 1024\<close> or more is an
  infinity. The sign of zero is not modelled.
\<close>

definition rne :: "real \<Rightarrow> int" where
  "rne y =
     (let f = \<lfloor>y\<rfloor>; d = y - of_int f
      in if d < 1 / 2 then f
         else if 1 / 2 < d then f + 1
         else if even f then f else f + 1)"

definition expo :: "real \<Rightarrow> int" where
  "expo x =
     (if 1 \<le> \<bar>x\<bar> then bitlen \<lfloor>\<bar>x\<bar>\<rfloor> - 1
      else - bitlen (\<lceil>1 / \<bar>x\<bar>\<rceil> - 1))"

definition fl :: "real \<Rightarrow> jsnum" where
  "fl x =
     (if x = 0 then Fin 0
      else
        (let e = max (expo x) (- 1022);
             q = 2 powi (e - 52);
             r = of_int (rne (x / q)) * q
         in if 2 ^ 1024 \<le> \<bar>r\<bar> then (if 0 < x then PosInf else NegInf) else Fin r))"

text \<open>The sign of a number that is not \<open>NaN\<close>, and the infinity of a sign.\<close>

fun sgn_of :: "jsnum \<Rightarrow> int" where
  "sgn_of (Fin a) = (if a < 0 then - 1 else if a = 0 then 0 else 1)"
| "sgn_of PosInf = 1"
| "sgn_of NegInf = - 1"
| "sgn_of NaN = 0"

definition inf_of :: "int \<Rightarrow> jsnum" where
  "inf_of s = (if s < 0 then NegInf else if s = 0 then NaN else PosInf)"

definition js_mul :: "jsnum \<Rightarrow> jsnum \<Rightarrow> jsnum" where
  "js_mul x y =
     (case (x, y) of
        (Fin a, Fin b) \<Rightarrow> fl (a * b)
      | _ \<Rightarrow> if x = NaN \<or> y = NaN then NaN else inf_of (sgn_of x * sgn_of y))"

definition js_div :: "jsnum \<Rightarrow> jsnum \<Rightarrow> jsnum" where
  "js_div x y =
     (case (x, y) of
        (Fin a, Fin b) \<Rightarrow> if b = 0 then inf_of (sgn_of x) else fl (a / b)
      | (Fin a, _) \<Rightarrow> if y = NaN then NaN else Fin 0
      | (_, Fin b) \<Rightarrow> if x = NaN then NaN else inf_of (sgn_of x * (if b < 0 then - 1 else 1))
      | _ \<Rightarrow> NaN)"

text \<open>\<open>Math.round\<close>: the nearest integer, a tie going up.\<close>

fun Math_round :: "jsnum \<Rightarrow> jsnum" where
  "Math_round (Fin a) = Fin (of_int \<lfloor>a + 1 / 2\<rfloor>)"
| "Math_round x = x"

text \<open>
  Truthiness of a parsed document, and the read of a property: \<open>None\<close> is \<open>undefined\<close>.
  Only an object has the properties that the code reads.
\<close>

fun truthy :: "json \<Rightarrow> bool" where
  "truthy JNull = False"
| "truthy (JBool b) = b"
| "truthy (JNum n) = (n \<noteq> Fin 0 \<and> n \<noteq> NaN)"
| "truthy (JStr s) = (s \<noteq> [])"
| "truthy (JArr _) = True"
| "truthy (JObj _) = True"

fun get_prop :: "json \<Rightarrow> string \<Rightarrow> json option" where
  "get_prop (JObj kvs) k = map_of kvs k"
| "get_prop _ _ = None"

text \<open>\<open>typeof cw.f === "number" ? cw.f : null\<close>\<close>

definition numField :: "json \<Rightarrow> string \<Rightarrow> jsnum option" where
  "numField cw f = (case get_prop cw f of Some (JNum x) \<Rightarrow> Some x | _ \<Rightarrow> None)"

text \<open>
  \<open>typeof v === "number" ? v : Number(v)\<close>. The built-in conversion \<open>Number\<close> of an
  argument that is not a number is a parameter of the model: the results below hold for
  every such conversion.
\<close>

definition toNum :: "(json \<Rightarrow> jsnum) \<Rightarrow> json \<Rightarrow> jsnum" where
  "toNum Number v = (case v of JNum x \<Rightarrow> x | _ \<Rightarrow> Number v)"

text \<open>Decimal rendering of an array index, as a template literal does it.\<close>

function show_nat :: "nat \<Rightarrow> string" where
  "show_nat n =
     (if n < 10 then [''0123456789'' ! n]
      else show_nat (n div 10) @ [''0123456789'' ! (n mod 10)])"
  by pat_completeness auto
termination
  by (relation "measure (\<lambda>n. n)") auto

declare show_nat.simps [simp del]

section \<open>Data model (lib/types.ts)\<close>

text \<open>
  The timestamp is kept as the millisecond count that \<open>toISOString\<close> renders; the
  rendering itself is not modelled.
\<close>

record BalloonPoint =
  balloonId :: string
  timestamp :: int
  lat :: jsnum
  lon :: jsnum
  alt :: "jsnum option"
  snapshotIndex :: nat

record BalloonTrack =
  id_track :: string
  points :: "BalloonPoint list"

record BalloonWeather =
  temperatureC :: "jsnum option"
  windSpeedMs :: "jsnum option"
  windDirectionDeg :: "jsnum option"

text \<open>
  \<open>Record<string, BalloonTrack>\<close>: an object whose keys are enumerated in insertion order
  (the keys used here are never array indices), so an association list with distinct keys.
\<close>

type_synonym balloons = "(string \<times> BalloonTrack) list"

section \<open>Track building (app/api/balloon-history/route.ts)\<close>

definition HOURS_BACK :: nat where
  "HOURS_BACK = 24"

text \<open>The body of \<open>snapshot.forEach\<close> up to the construction of the point.\<close>

definition entryPoint ::
  "(json \<Rightarrow> jsnum) \<Rightarrow> int \<Rightarrow> nat \<Rightarrow> nat \<Rightarrow> json \<Rightarrow> BalloonPoint option" where
  "entryPoint Number ts hour idx entry =
     (case entry of
        JArr (latRaw # lonRaw # rest) \<Rightarrow>
          (let latN = toNum Number latRaw;
               lonN = toNum Number lonRaw;
               altNum = (case rest of
                           [] \<Rightarrow> None
                         | altRaw # _ \<Rightarrow>
                             (if altRaw = JNull then None else Some (toNum Number altRaw)))
           in if isNaN latN \<or> isNaN lonN \<or> \<not> isFinite latN \<or> \<not> isFinite lonN then None
              else Some \<lparr> balloonId = ''balloon-'' @ show_nat idx,
                          timestamp = ts,
                          lat = latN,
                          lon = lonN,
                          alt = (case altNum of
                                   None \<Rightarrow> None
                                 | Some a \<Rightarrow> (if isFinite a then Some a else None)),
                          snapshotIndex = hour \<rparr>)
      | _ \<Rightarrow> None)"

text \<open>Create the track on first sight, then push the point.\<close>

definition pushPoint :: "balloons \<Rightarrow> BalloonPoint \<Rightarrow> balloons" where
  "pushPoint bs p =
     (let k = balloonId p;
          bs1 = (if map_of bs k = None
                 then bs @ [(k, \<lparr> id_track = k, points = [] \<rparr>)] else bs)
      in map (\<lambda>(k', t). if k' = k then (k', t\<lparr> points := points t @ [p] \<rparr>) else (k', t)) bs1)"

definition addEntry ::
  "(json \<Rightarrow> jsnum) \<Rightarrow> int \<Rightarrow> nat \<Rightarrow> balloons \<Rightarrow> nat \<times> json \<Rightarrow> balloons" where
  "addEntry Number ts hour acc ie =
     (case entryPoint Number ts hour (fst ie) (snd ie) of
        None \<Rightarrow> acc
      | Some p \<Rightarrow> pushPoint acc p)"

definition foldSnapshot ::
  "(json \<Rightarrow> jsnum) \<Rightarrow> int \<Rightarrow> nat \<Rightarrow> json list \<Rightarrow> balloons \<Rightarrow> balloons" where
  "foldSnapshot Number ts hour snapshot bs =
     foldl (addEntry Number ts hour) bs (enumerate 0 snapshot)"

text \<open>
  One round of the loop over the hours. \<open>now\<close> is the reading of \<open>Date.now()\<close>; an
  absent snapshot (\<open>!snapshot\<close>) is \<open>None\<close> and is skipped.
\<close>

definition addHour ::
  "(json \<Rightarrow> jsnum) \<Rightarrow> int \<Rightarrow> balloons \<Rightarrow> nat \<times> json list option \<Rightarrow> balloons" where
  "addHour Number now acc hs =
     (case snd hs of
        None \<Rightarrow> acc
      | Some s \<Rightarrow> foldSnapshot Number (now - int (fst hs) * 60 * 60 * 1000) (fst hs) s acc)"

text \<open>
  The final loop sorts every track with the comparator
  \<open>a.snapshotIndex - b.snapshotIndex\<close> (the sort is stable).
\<close>

definition sortTrack :: "string \<times> BalloonTrack \<Rightarrow> string \<times> BalloonTrack" where
  "sortTrack kt = (fst kt, (snd kt)\<lparr> points := sort_key snapshotIndex (points (snd kt)) \<rparr>)"

definition buildBalloonHistory ::
  "(json \<Rightarrow> jsnum) \<Rightarrow> int \<Rightarrow> json list option list \<Rightarrow> balloons" where
  "buildBalloonHistory Number now rawSnapshots =
     map sortTrack (foldl (addHour Number now) [] (enumerate 0 rawSnapshots))"

text \<open>
  The route handler passes \<open>rawSnapshots.filter((s) => !!s)\<close>: the unavailable hours are
  removed before the tracks are built.
\<close>

definition GET_balloons ::
  "(json \<Rightarrow> jsnum) \<Rightarrow> int \<Rightarrow> json list option list \<Rightarrow> balloons" where
  "GET_balloons Number now rawSnapshots =
     buildBalloonHistory Number now (map Some (List.map_filter (\<lambda>s. s) rawSnapshots))"

section \<open>Track building in lib/windborne.ts\<close>

definition HISTORY_HOURS :: nat where
  "HISTORY_HOURS = 24"

text \<open>
  The body of \<open>raw.forEach\<close> in \<open>extractPointsFromSnapshot\<close>: the entry must be an
  array whose first two elements are numbers, and both must pass the range check.
\<close>

definition extractEntry :: "int \<Rightarrow> nat \<Rightarrow> nat \<times> json \<Rightarrow> BalloonPoint option" where
  "extractEntry ts hourIndex ie =
     (case snd ie of
        JArr (JNum latN # JNum lonN # rest) \<Rightarrow>
          if js_lt latN (Fin (- 90)) \<or> js_gt latN (Fin 90) \<or>
             js_lt lonN (Fin (- 180)) \<or> js_gt lonN (Fin 180) then None
          else Some \<lparr> balloonId = ''balloon-'' @ show_nat (fst ie),
                      timestamp = ts,
                      lat = latN,
                      lon = lonN,
                      alt = (case rest of JNum a # _ \<Rightarrow> Some a | _ \<Rightarrow> None),
                      snapshotIndex = hourIndex \<rparr>
      | _ \<Rightarrow> None)"

definition extractPointsFromSnapshot :: "int \<Rightarrow> json \<Rightarrow> nat \<Rightarrow> BalloonPoint list" where
  "extractPointsFromSnapshot now raw hourIndex =
     (case raw of
        JArr entries \<Rightarrow>
          List.map_filter (extractEntry (now - int hourIndex * 3600000) hourIndex)
            (enumerate 0 entries)
      | _ \<Rightarrow> [])"

record BalloonHistoryResponse =
  generatedAt :: int
  history_points :: "BalloonPoint list"
  history_balloons :: balloons

text \<open>
  \<open>snapshots.forEach((raw, hourIndex) => ...)\<close>: a snapshot that could not be fetched is
  \<open>None\<close>; it keeps its place, so the index of every other hour is unchanged.
\<close>

definition hourPoints :: "int \<Rightarrow> nat \<times> json option \<Rightarrow> BalloonPoint list" where
  "hourPoints now hr =
     (case snd hr of
        None \<Rightarrow> []
      | Some raw \<Rightarrow> if truthy raw then extractPointsFromSnapshot now raw (fst hr) else [])"

definition buildBalloonHistory_lib :: "int \<Rightarrow> json option list \<Rightarrow> BalloonHistoryResponse" where
  "buildBalloonHistory_lib now snapshots =
     (let allPoints = sort_key timestamp (concat (map (hourPoints now) (enumerate 0 snapshots)))
      in \<lparr> generatedAt = now,
           history_points = allPoints,
           history_balloons = foldl pushPoint [] allPoints \<rparr>)"

definition getLatestPositions ::
  "BalloonHistoryResponse \<Rightarrow> (string \<times> jsnum \<times> jsnum) list" where
  "getLatestPositions history =
     foldl (\<lambda>latest track.
              if points track = [] then latest
              else AList.update (id_track track)
                     (lat (last (points track)), lon (last (points track))) latest)
           [] (map snd (history_balloons history))"

section \<open>Per-balloon weather (lib/weather.ts)\<close>

text \<open>
  What a \<open>fetch\<close> delivers: a rejection, or a status and a body; the body is \<open>None\<close> when
  it is not JSON (\<open>res.json()\<close> throws).
\<close>

datatype response = NetworkError | Response nat "json option"

definition res_ok :: "nat \<Rightarrow> bool" where
  "res_ok status = (200 \<le> status \<and> status \<le> 299)"

text \<open>
  The requests that this module sends to the provider are kept in a log, in the order in
  which they are sent, each with the latitude and the longitude of its URL (the other
  parameters are constants). \<open>net n\<close> is the outcome of the request that is sent after \<open>n\<close>
  others: an outcome is obtained only by sending a request.
\<close>

type_synonym requests = "(jsnum \<times> jsnum) list"

definition fetch_forecast ::
  "(nat \<Rightarrow> response) \<Rightarrow> jsnum \<Rightarrow> jsnum \<Rightarrow> requests \<Rightarrow> response \<times> requests" where
  "fetch_forecast net latN lonN sent = (net (length sent), sent @ [(latN, lonN)])"

text \<open>
  The \<open>try\<close> block of \<open>fetchWeatherForCoord\<close> after the \<open>fetch\<close>. Every exception (a rejected
  fetch, a body that is not JSON, the property read on \<open>null\<close>) ends in \<open>return null\<close>.
\<close>

definition currentWeather :: "response \<Rightarrow> BalloonWeather option" where
  "currentWeather r =
     (case r of
        NetworkError \<Rightarrow> None
      | Response status body \<Rightarrow>
          if \<not> res_ok status then None
          else (case body of
                  None \<Rightarrow> None
                | Some data \<Rightarrow>
                    if data = JNull then None
                    else (case get_prop data ''current_weather'' of
                            None \<Rightarrow> None
                          | Some cw \<Rightarrow>
                              if \<not> truthy cw then None
                              else Some \<lparr> temperatureC = numField cw ''temperature'',
                                          windSpeedMs = numField cw ''windspeed'',
                                          windDirectionDeg = numField cw ''winddirection'' \<rparr>)))"

definition fetchWeatherForCoord ::
  "(nat \<Rightarrow> response) \<Rightarrow> jsnum \<Rightarrow> jsnum \<Rightarrow> requests \<Rightarrow> BalloonWeather option \<times> requests" where
  "fetchWeatherForCoord net latN lonN sent =
     (let fetched = fetch_forecast net latN lonN sent
      in (currentWeather (fst fetched), snd fetched))"

definition MAX_BALLOONS_WITH_WEATHER :: nat where
  "MAX_BALLOONS_WITH_WEATHER = 50"

definition nullWeather :: BalloonWeather where
  "nullWeather = \<lparr> temperatureC = None, windSpeedMs = None, windDirectionDeg = None \<rparr>"

text \<open>
  \<open>fetchWeatherForBalloons\<close>. The callbacks of \<open>toQuery.map\<close> run one after the other up to
  their \<open>fetch\<close>, so the requests are sent in the order of \<open>toQuery\<close>; each callback assigns
  to the key of its own entry when its answer has arrived. The object \<open>results\<close> is a map,
  and the state that is passed along is that map with the log of the requests.
\<close>

definition queryOne ::
  "(nat \<Rightarrow> response) \<Rightarrow> (string \<rightharpoonup> BalloonWeather) \<times> requests \<Rightarrow> string \<times> jsnum \<times> jsnum
     \<Rightarrow> (string \<rightharpoonup> BalloonWeather) \<times> requests" where
  "queryOne net acc entry =
     (let fetched = fetchWeatherForCoord net (fst (snd entry)) (snd (snd entry)) (snd acc)
      in ((fst acc)(fst entry \<mapsto> (case fst fetched of Some wx \<Rightarrow> wx | None \<Rightarrow> nullWeather)),
          snd fetched))"

definition skipOne ::
  "(string \<rightharpoonup> BalloonWeather) \<Rightarrow> string \<times> jsnum \<times> jsnum \<Rightarrow> (string \<rightharpoonup> BalloonWeather)" where
  "skipOne results entry =
     (if results (fst entry) = None then results(fst entry \<mapsto> nullWeather) else results)"

definition fetchWeatherForBalloons ::
  "(nat \<Rightarrow> response) \<Rightarrow> (string \<times> jsnum \<times> jsnum) list \<Rightarrow> requests
     \<Rightarrow> (string \<rightharpoonup> BalloonWeather) \<times> requests" where
  "fetchWeatherForBalloons net latestPositions sent =
     (let toQuery = take MAX_BALLOONS_WITH_WEATHER latestPositions;
          toSkip = drop MAX_BALLOONS_WITH_WEATHER latestPositions;
          queried = foldl (queryOne net) (Map.empty, sent) toQuery
      in (foldl skipOne (fst queried) toSkip, snd queried))"

text \<open>
  \<open>buildBalloonHistoryWithWeather\<close>: the history with the map \<open>latestWeather\<close>, and the log
  of the requests.
\<close>

definition buildBalloonHistoryWithWeather ::
  "int \<Rightarrow> json option list \<Rightarrow> (nat \<Rightarrow> response) \<Rightarrow> requests
     \<Rightarrow> (BalloonHistoryResponse \<times> (string \<rightharpoonup> BalloonWeather)) \<times> requests" where
  "buildBalloonHistoryWithWeather now snapshots net sent =
     (let history = buildBalloonHistory_lib now snapshots;
          fetched = fetchWeatherForBalloons net (getLatestPositions history) sent
      in ((history, fst fetched), snd fetched))"

section \<open>Grid cells and weather (app/api/balloon-history/route.ts)\<close>

definition WEATHER_BATCH_SIZE :: nat where
  "WEATHER_BATCH_SIZE = 50"

definition GRID_DEGREES :: jsnum where
  "GRID_DEGREES = Fin 1"

definition MAX_REQUESTS_PER_WINDOW :: nat where
  "MAX_REQUESTS_PER_WINDOW = 500"

definition WINDOW_MS :: int where
  "WINDOW_MS = 60000"

definition maxRetries :: nat where
  "maxRetries = 5"

record Cell =
  key :: string
  lat_cell :: jsnum
  lon_cell :: jsnum
  balloonIds :: "string list"

definition roundToGrid :: "jsnum \<Rightarrow> jsnum \<Rightarrow> jsnum" where
  "roundToGrid val gridDeg = js_mul (Math_round (js_div val gridDeg)) gridDeg"

subsection \<open>The world outside the handler\<close>

text \<open>
  Every effect of the handler is an event appended to a trace: a request to the weather
  provider (with the cells it asks for), a sleep, a bulk read of the cache, the execution
  of a pipeline of cache writes.
\<close>

datatype event =
    EvFetch "Cell list"
  | EvSleep int
  | EvMget "string list"
  | EvExec "(string \<times> BalloonWeather \<times> jsnum) list"

text \<open>
  The state of the world: the clock that \<open>Date.now()\<close> reads, the number of requests sent
  to the provider, and the trace.
\<close>

record world =
  clock :: int
  calls :: nat
  trace :: "event list"

text \<open>
  The cache client: \<open>mget\<close> delivers one entry per key or rejects (\<open>None\<close>); \<open>exec\<close> runs
  a pipeline and tells whether it went through.
\<close>

record redis_client =
  mget :: "string list \<Rightarrow> string option list option"
  exec :: "(string \<times> BalloonWeather \<times> jsnum) list \<Rightarrow> bool"

text \<open>
  What the handler is given: the outcome of the \<open>n\<close>-th request to the provider, the time
  that the \<open>n\<close>-th effect takes beyond what was asked for, the client that
  \<open>getRedisClient()\<close> returns (\<open>None\<close> when \<open>REDIS_URL\<close> is not set), the number read from
  \<open>REDIS_WEATHER_TTL_SECONDS\<close>, and two built-in functions that are not modelled further:
  \<open>toFixed\<close>, and \<open>JSON.parse\<close> of a cached entry (\<open>None\<close> when it throws).
\<close>

record env =
  respond :: "nat \<Rightarrow> response"
  elapse :: "nat \<Rightarrow> nat"
  redis :: "redis_client option"
  ttlSeconds :: jsnum
  toFixed :: "nat \<Rightarrow> jsnum \<Rightarrow> string"
  JSON_parse :: "string \<Rightarrow> json option"

datatype error = CacheError

definition effect :: "env \<Rightarrow> event \<Rightarrow> int \<Rightarrow> world \<Rightarrow> world" where
  "effect e ev ms w =
     w\<lparr> clock := clock w + ms + int (elapse e (length (trace w))),
        trace := trace w @ [ev] \<rparr>"

definition sleep :: "env \<Rightarrow> int \<Rightarrow> world \<Rightarrow> world" where
  "sleep e ms w = effect e (EvSleep ms) (max 0 ms) w"

definition fetch :: "env \<Rightarrow> Cell list \<Rightarrow> world \<Rightarrow> response \<times> world" where
  "fetch e cells w =
     (respond e (calls w), (effect e (EvFetch cells) 0 w)\<lparr> calls := Suc (calls w) \<rparr>)"

subsection \<open>Clustering\<close>

text \<open>The cell key of a point, as the template literal builds it.\<close>

definition cellKey :: "env \<Rightarrow> BalloonPoint \<Rightarrow> string" where
  "cellKey e latest =
     toFixed e 1 (roundToGrid (lat latest) GRID_DEGREES) @ '','' @
     toFixed e 1 (roundToGrid (lon latest) GRID_DEGREES)"

text \<open>
  One round of the loop of \<open>clusterLatestPointsIntoCells\<close>. \<open>cellsMap\<close> is an object keyed
  by the cell key: a list of cells with distinct keys, in insertion order.
\<close>

definition addToCell :: "env \<Rightarrow> Cell list \<Rightarrow> BalloonTrack \<Rightarrow> Cell list" where
  "addToCell e cellsMap track =
     (case points track of
        [] \<Rightarrow> cellsMap
      | latest # _ \<Rightarrow>
          (let latCenter = roundToGrid (lat latest) GRID_DEGREES;
               lonCenter = roundToGrid (lon latest) GRID_DEGREES;
               k = toFixed e 1 latCenter @ '','' @ toFixed e 1 lonCenter;
               cm = (if find (\<lambda>c. key c = k) cellsMap = None
                     then cellsMap @ [\<lparr> key = k, lat_cell = latCenter, lon_cell = lonCenter,
                                        balloonIds = [] \<rparr>]
                     else cellsMap)
           in map (\<lambda>c. if key c = k
                        then c\<lparr> balloonIds := balloonIds c @ [id_track track] \<rparr> else c) cm))"

definition clusterLatestPointsIntoCells :: "env \<Rightarrow> balloons \<Rightarrow> Cell list" where
  "clusterLatestPointsIntoCells e balloons = foldl (addToCell e) [] (map snd balloons)"

definition weatherCacheKey :: "env \<Rightarrow> Cell \<Rightarrow> string" where
  "weatherCacheKey e cell =
     ''wx:'' @ toFixed e 1 (lat_cell cell) @ '':'' @ toFixed e 1 (lon_cell cell)"

subsection \<open>One batch request, with retries\<close>

text \<open>
  The items of a response body. Reading \<open>current_weather\<close> of \<open>null\<close> throws: \<open>None\<close>.
\<close>

definition itemsOf :: "json \<Rightarrow> json list option" where
  "itemsOf data =
     (case data of
        JArr xs \<Rightarrow> Some xs
      | JNull \<Rightarrow> None
      | _ \<Rightarrow>
          (case get_prop data ''current_weather'' of
             Some (JArr cws) \<Rightarrow> Some (map (\<lambda>cw. JObj [(''current_weather'', cw)]) cws)
           | _ \<Rightarrow> Some [data]))"

text \<open>
  The body of \<open>cells.forEach\<close>: the reading of the item at \<open>idx\<close>, if it has one. The
  literal \<open>3.6\<close> is the binary64 number nearest to it.
\<close>

definition readItem :: "json list \<Rightarrow> nat \<Rightarrow> BalloonWeather option" where
  "readItem items idx =
     (if idx < length items then
        (case get_prop (items ! idx) ''current_weather'' of
           None \<Rightarrow> None
         | Some cw \<Rightarrow>
             if \<not> truthy cw then None
             else Some \<lparr> temperatureC = numField cw ''temperature'',
                         windSpeedMs =
                           (case numField cw ''windspeed'' of
                              Some ws \<Rightarrow> Some (js_div ws (fl (36 / 10)))
                            | None \<Rightarrow> None),
                         windDirectionDeg = numField cw ''winddirection'' \<rparr>)
      else None)"

definition putItem ::
  "json list \<Rightarrow> (string \<rightharpoonup> BalloonWeather) \<Rightarrow> nat \<times> Cell \<Rightarrow> (string \<rightharpoonup> BalloonWeather)" where
  "putItem items result ic =
     (case readItem items (fst ic) of
        None \<Rightarrow> result
      | Some wx \<Rightarrow> result(key (snd ic) \<mapsto> wx))"

text \<open>
  One pass through the \<open>try\<close> block: either the result is returned, or the attempt may be
  repeated (status 429 or 5xx, or an exception).
\<close>

datatype outcome = Retry | Done "string \<rightharpoonup> BalloonWeather"

definition attemptOutcome :: "Cell list \<Rightarrow> response \<Rightarrow> outcome" where
  "attemptOutcome cells r =
     (case r of
        NetworkError \<Rightarrow> Retry
      | Response status body \<Rightarrow>
          if status = 429 \<or> 500 \<le> status then Retry
          else if \<not> res_ok status then Done Map.empty
          else (case body of
                  None \<Rightarrow> Retry
                | Some data \<Rightarrow>
                    (case itemsOf data of
                       None \<Rightarrow> Retry
                     | Some items \<Rightarrow>
                         Done (foldl (putItem items) Map.empty (enumerate 0 cells)))))"

function fetchOpenMeteoBatch ::
  "env \<Rightarrow> Cell list \<Rightarrow> nat \<Rightarrow> world \<Rightarrow> (string \<rightharpoonup> BalloonWeather) \<times> world" where
  "fetchOpenMeteoBatch e cells attempt w =
     (if cells = [] then (Map.empty, w)
      else
        (case attemptOutcome cells (fst (fetch e cells w)) of
           Done result \<Rightarrow> (result, snd (fetch e cells w))
         | Retry \<Rightarrow>
             if attempt < maxRetries
             then fetchOpenMeteoBatch e cells (Suc attempt)
                    (sleep e (500 * (int attempt + 1)) (snd (fetch e cells w)))
             else (Map.empty, snd (fetch e cells w))))"
  by pat_completeness auto
termination
  by (relation "measure (\<lambda>(e, cells, attempt, w). maxRetries - attempt)") auto

declare fetchOpenMeteoBatch.simps [simp del]

subsection \<open>The cache, the rate limit and the fan-out\<close>

text \<open>
  What the objects \<open>cellWeather\<close> and \<open>latestWeather\<close> hold: a reading built from an
  answer of the provider, or whatever \<open>JSON.parse\<close> made of a cached entry (the cast
  \<open>as BalloonWeather\<close> checks nothing).
\<close>

datatype weather = Reading BalloonWeather | Parsed json

fun truthy_weather :: "weather \<Rightarrow> bool" where
  "truthy_weather (Reading wx) = True"
| "truthy_weather (Parsed j) = truthy j"

record loop_state =
  cellWeather :: "string \<rightharpoonup> weather"
  requestsInWindow :: nat
  windowStart :: int
  world_of :: world

text \<open>The head of the loop body: wait for the next window, or open a new one.\<close>

definition awaitWindow :: "env \<Rightarrow> loop_state \<Rightarrow> loop_state" where
  "awaitWindow e st =
     (let now = clock (world_of st);
          elapsed = now - windowStart st
      in if MAX_REQUESTS_PER_WINDOW \<le> requestsInWindow st \<and> elapsed < WINDOW_MS then
           (let w1 = sleep e (WINDOW_MS - elapsed) (world_of st)
            in st\<lparr> world_of := w1, windowStart := clock w1, requestsInWindow := 0 \<rparr>)
         else if WINDOW_MS \<le> elapsed then st\<lparr> windowStart := now, requestsInWindow := 0 \<rparr>
         else st)"

definition batchWrites ::
  "env \<Rightarrow> Cell list \<Rightarrow> (string \<rightharpoonup> BalloonWeather) \<Rightarrow> (string \<times> BalloonWeather \<times> jsnum) list" where
  "batchWrites e batch batchResult =
     List.map_filter
       (\<lambda>cell. case batchResult (key cell) of
                 None \<Rightarrow> None
               | Some wx \<Rightarrow> Some (weatherCacheKey e cell, wx, ttlSeconds e))
       batch"

text \<open>The rest of the loop body. A rejected \<open>pipeline.exec()\<close> is not caught in the loop.\<close>

definition batchStep :: "env \<Rightarrow> Cell list \<Rightarrow> loop_state \<Rightarrow> error + loop_state" where
  "batchStep e batch st0 =
     (let st = awaitWindow e st0;
          fetched = fetchOpenMeteoBatch e batch 0 (world_of st);
          batchResult = fst fetched;
          st1 = st\<lparr> world_of := snd fetched,
                    requestsInWindow := requestsInWindow st + 1,
                    cellWeather := cellWeather st ++ (\<lambda>cellKey. map_option Reading (batchResult cellKey)) \<rparr>
      in case redis e of
           None \<Rightarrow> Inr st1
         | Some r \<Rightarrow>
             if js_gt (ttlSeconds e) (Fin 0) then
               (let ws = batchWrites e batch batchResult
                in if exec r ws
                   then Inr (st1\<lparr> world_of := effect e (EvExec ws) 0 (world_of st1) \<rparr>)
                   else Inl CacheError)
             else Inr st1)"

function batchLoop :: "env \<Rightarrow> Cell list \<Rightarrow> loop_state \<Rightarrow> error + loop_state" where
  "batchLoop e missingCells st =
     (if missingCells = [] then Inr st
      else
        (case batchStep e (take WEATHER_BATCH_SIZE missingCells) st of
           Inl err \<Rightarrow> Inl err
         | Inr st' \<Rightarrow> batchLoop e (drop WEATHER_BATCH_SIZE missingCells) st'))"
  by pat_completeness auto
termination
  by (relation "measure (\<lambda>(e, missingCells, st). length missingCells)")
     (auto simp: WEATHER_BATCH_SIZE_def)

declare batchLoop.simps [simp del]

text \<open>
  The body of \<open>cells.forEach\<close> after \<open>mget\<close>: an entry that is absent, empty or not
  parseable makes the cell a missing one; whatever else the entry parses to is assigned
  to the key of the cell.
\<close>

definition readCached ::
  "env \<Rightarrow> string option list \<Rightarrow> (string \<rightharpoonup> weather) \<times> Cell list \<Rightarrow> nat \<times> Cell
     \<Rightarrow> (string \<rightharpoonup> weather) \<times> Cell list" where
  "readCached e cached acc ic =
     (case (if fst ic < length cached then cached ! fst ic else None) of
        None \<Rightarrow> (fst acc, snd acc @ [snd ic])
      | Some raw \<Rightarrow>
          if raw = [] then (fst acc, snd acc @ [snd ic])
          else (case JSON_parse e raw of
                  None \<Rightarrow> (fst acc, snd acc @ [snd ic])
                | Some wx \<Rightarrow> ((fst acc)(key (snd ic) \<mapsto> Parsed wx), snd acc)))"

text \<open>Step 1: the cached readings and the missing cells. A rejected \<open>mget\<close> is not caught.\<close>

definition lookupCache ::
  "env \<Rightarrow> Cell list \<Rightarrow> world \<Rightarrow> error + (string \<rightharpoonup> weather) \<times> Cell list \<times> world" where
  "lookupCache e cells w =
     (case redis e of
        None \<Rightarrow> Inr (Map.empty, cells, w)
      | Some r \<Rightarrow>
          (let keys = map (weatherCacheKey e) cells
           in case mget r keys of
                None \<Rightarrow> Inl CacheError
              | Some cached \<Rightarrow>
                  (let found = foldl (readCached e cached) (Map.empty, []) (enumerate 0 cells)
                   in Inr (fst found, snd found, effect e (EvMget keys) 0 w))))"

text \<open>Steps 1 and 2: the map \<open>cellWeather\<close> when the loop over the batches has ended.\<close>

definition resolveCellWeather ::
  "env \<Rightarrow> Cell list \<Rightarrow> world \<Rightarrow> error + (string \<rightharpoonup> weather) \<times> world" where
  "resolveCellWeather e cells w =
     (case lookupCache e cells w of
        Inl err \<Rightarrow> Inl err
      | Inr (cw, missingCells, w1) \<Rightarrow>
          (case batchLoop e missingCells
                  \<lparr> cellWeather = cw, requestsInWindow = 0, windowStart = clock w1,
                    world_of = w1 \<rparr> of
             Inl err \<Rightarrow> Inl err
           | Inr st \<Rightarrow> Inr (cellWeather st, world_of st)))"

text \<open>
  Step 3: every balloon of a cell with a reading gets that reading; a cell whose entry is
  absent or falsy (\<open>!wx\<close>) is passed over.
\<close>

definition fanCell ::
  "(string \<rightharpoonup> weather) \<Rightarrow> (string \<rightharpoonup> weather) \<Rightarrow> Cell \<Rightarrow> (string \<rightharpoonup> weather)" where
  "fanCell cw latestWeather cell =
     (case cw (key cell) of
        None \<Rightarrow> latestWeather
      | Some wx \<Rightarrow>
          if \<not> truthy_weather wx then latestWeather
          else foldl (\<lambda>m balloonId. m(balloonId \<mapsto> wx)) latestWeather (balloonIds cell))"

definition fanOut :: "Cell list \<Rightarrow> (string \<rightharpoonup> weather) \<Rightarrow> (string \<rightharpoonup> weather)" where
  "fanOut cells cw = foldl (fanCell cw) Map.empty cells"

definition fetchWeatherForAllBalloons ::
  "env \<Rightarrow> balloons \<Rightarrow> world \<Rightarrow> error + (string \<rightharpoonup> weather) \<times> world" where
  "fetchWeatherForAllBalloons e balloons w =
     (let cells = clusterLatestPointsIntoCells e balloons
      in case resolveCellWeather e cells w of
           Inl err \<Rightarrow> Inl err
         | Inr (cw, w') \<Rightarrow> Inr (fanOut cells cw, w'))"

subsection \<open>The route handler\<close>

text \<open>
  \<open>fetchTreasureSnapshot\<close>, given the outcome of its request: a rejection, a status that is
  not a success, a body that is not JSON or not an array all yield \<open>null\<close>.
\<close>

definition fetchTreasureSnapshot :: "response \<Rightarrow> json list option" where
  "fetchTreasureSnapshot r =
     (case r of
        NetworkError \<Rightarrow> None
      | Response status body \<Rightarrow>
          if \<not> res_ok status then None
          else (case body of Some (JArr data) \<Rightarrow> Some data | _ \<Rightarrow> None))"

record payload =
  payload_generatedAt :: int
  payload_points :: "BalloonPoint list"
  payload_balloons :: balloons
  payload_latestWeather :: "string \<rightharpoonup> weather"

datatype http_result = Status200 payload | Status500

text \<open>
  \<open>GET\<close>, given the outcomes of the 24 snapshot requests. Whatever is thrown inside the
  \<open>try\<close> block ends in the response with status 500.
\<close>

definition GET ::
  "env \<Rightarrow> (json \<Rightarrow> jsnum) \<Rightarrow> json list option list \<Rightarrow> world \<Rightarrow> http_result" where
  "GET e Number rawSnapshots w =
     (let balloons = GET_balloons Number (clock w) rawSnapshots
      in case fetchWeatherForAllBalloons e balloons w of
           Inl err \<Rightarrow> Status500
         | Inr (latestWeather, w') \<Rightarrow>
             Status200 \<lparr> payload_generatedAt = clock w',
                         payload_points = concat (map (\<lambda>kt. points (snd kt)) balloons),
                         payload_balloons = balloons,
                         payload_latestWeather = latestWeather \<rparr>)"

text \<open>
  Two predicates for stating what track building guarantees: a track is keyed by its own
  id, has a point, and holds only points of that id; a point carries the index of an
  available hour, the timestamp of that hour, and finite coordinates.
\<close>

definition track_ok :: "string \<times> BalloonTrack \<Rightarrow> bool" where
  "track_ok kt =
     (id_track (snd kt) = fst kt \<and> points (snd kt) \<noteq> [] \<and>
      (\<forall>p \<in> set (points (snd kt)). balloonId p = fst kt))"

definition point_ok :: "int \<Rightarrow> json list option list \<Rightarrow> BalloonPoint \<Rightarrow> bool" where
  "point_ok now snaps p =
     (snapshotIndex p < length snaps \<and> snaps ! snapshotIndex p \<noteq> None \<and>
      timestamp p = now - int (snapshotIndex p) * 3600000 \<and>
      isFinite (lat p) \<and> isFinite (lon p))"

section \<open>Notions and sample inputs used in the statements\<close>

text \<open>
  A transient failure of a request to the weather provider: status 429, a status from 500
  to 599, or a rejection at the network level.
\<close>

definition transient :: "response \<Rightarrow> bool" where
  "transient r =
     (case r of
        NetworkError \<Rightarrow> True
      | Response status body \<Rightarrow> status = 429 \<or> (500 \<le> status \<and> status \<le> 599))"

text \<open>A provider that answers every request with status 429, one cell, an initial world.\<close>

definition env429 :: env where
  "env429 = \<lparr> respond = (\<lambda>n. Response 429 None), elapse = (\<lambda>n. 0), redis = None,
               ttlSeconds = Fin 900, toFixed = (\<lambda>d x. []), JSON_parse = (\<lambda>s. None) \<rparr>"

definition cell0 :: Cell where
  "cell0 = \<lparr> key = ''0.0,0.0'', lat_cell = Fin 0, lon_cell = Fin 0,
              balloonIds = [''balloon-0''] \<rparr>"

definition world0 :: world where
  "world0 = \<lparr> clock = 0, calls = 0, trace = [] \<rparr>"

text \<open>A provider that reports 20 degrees, a wind of 36 km/h and a direction of 180 degrees.\<close>

definition env36 :: env where
  "env36 = \<lparr> respond = (\<lambda>n. Response 200 (Some (JArr [JObj [(''current_weather'',
                 JObj [(''temperature'', JNum (Fin 20)), (''windspeed'', JNum (Fin 36)),
                       (''winddirection'', JNum (Fin 180))])]]))),
              elapse = (\<lambda>n. 0), redis = None,
              ttlSeconds = Fin 900, toFixed = (\<lambda>d x. []), JSON_parse = (\<lambda>s. None) \<rparr>"



text \<open>
  Two states of the loop with a full window: one second and seventy seconds after the
  window was opened.
\<close>

definition stFull :: loop_state where
  "stFull = \<lparr> cellWeather = Map.empty, requestsInWindow = 500, windowStart = 0,
               world_of = \<lparr> clock = 1000, calls = 500, trace = [] \<rparr> \<rparr>"

definition stLate :: loop_state where
  "stLate = \<lparr> cellWeather = Map.empty, requestsInWindow = 500, windowStart = 0,
               world_of = \<lparr> clock = 70000, calls = 500, trace = [] \<rparr> \<rparr>"

text \<open>The events that touch the cache.\<close>

fun isCacheEvent :: "event \<Rightarrow> bool" where
  "isCacheEvent (EvMget _) = True"
| "isCacheEvent (EvExec _) = True"
| "isCacheEvent _ = False"

text \<open>
  A cache client whose every operation is rejected (the service is unreachable), the
  environment with that client, and a conversion that turns every non-number into \<open>NaN\<close>.
\<close>

definition clientDown :: redis_client where
  "clientDown = \<lparr> mget = (\<lambda>keys. None), exec = (\<lambda>ws. False) \<rparr>"

definition envCacheDown :: env where
  "envCacheDown = env36\<lparr> redis := Some clientDown \<rparr>"

definition N0 :: "json \<Rightarrow> jsnum" where
  "N0 v = NaN"

text \<open>
  The reading of the cell with key \<open>k\<close>: what \<open>cellWeather\<close> holds for \<open>k\<close>, unless that is
  falsy.
\<close>

definition readingOf :: "(string \<rightharpoonup> weather) \<Rightarrow> string \<Rightarrow> weather option" where
  "readingOf cw k =
     (case cw k of
        None \<Rightarrow> None
      | Some wx \<Rightarrow> if truthy_weather wx then Some wx else None)"

text \<open>The balloons that the cells with key \<open>k\<close> hold.\<close>

definition members :: "Cell list \<Rightarrow> string \<Rightarrow> string set" where
  "members cells k = {b. \<exists>c \<in> set cells. key c = k \<and> b \<in> set (balloonIds c)}"

text \<open>
  One snapshot with two balloons whose positions round to the same grid point, and an
  environment whose \<open>toFixed\<close> renders the non-negative integers of this sample.
\<close>

definition snapsTwo :: "json list option list" where
  "snapsTwo = [Some [JArr [JNum (Fin 1), JNum (Fin 2)],
                     JArr [JNum (Fin (5 / 4)), JNum (Fin (7 / 4))]]]"

definition envGrid :: env where
  "envGrid = env36\<lparr> toFixed :=
     (\<lambda>d x. case x of Fin r \<Rightarrow> show_nat (nat \<lfloor>r\<rfloor>) @ ''.0'' | _ \<Rightarrow> ''NaN'') \<rparr>"










section \<open>Properties of track building\<close>

lemma foldl_invariant:
  assumes "P a" and "\<And>b x. x \<in> set xs \<Longrightarrow> P b \<Longrightarrow> P (f b x)"
  shows "P (foldl f a xs)"
  using assms by (induction xs arbitrary: a) auto

lemma pushPoint_keys: "map fst (pushPoint bs p) = (if map_of bs (balloonId p) = None then map fst bs @ [balloonId p] else map fst bs)"
  by (auto simp: pushPoint_def Let_def split: prod.splits)

lemma pushPoint_distinct: "distinct (map fst bs) \<Longrightarrow> distinct (map fst (pushPoint bs p))"
  by (auto simp: pushPoint_keys map_of_eq_None_iff)

lemma pushPoint_ok:
  assumes "\<forall>kt \<in> set bs. track_ok kt"
  shows "\<forall>kt \<in> set (pushPoint bs p). track_ok kt"
  using assms by (auto simp: pushPoint_def Let_def track_ok_def split: if_splits)

lemma pushPoint_points:
  assumes "\<forall>kt \<in> set bs. \<forall>q \<in> set (points (snd kt)). Q q" and "Q p"
  shows "\<forall>kt \<in> set (pushPoint bs p). \<forall>q \<in> set (points (snd kt)). Q q"
  using assms by (auto simp: pushPoint_def Let_def split: if_splits)

lemma addEntry_ok:
  "\<forall>kt \<in> set bs. track_ok kt \<Longrightarrow> \<forall>kt \<in> set (addEntry Number ts hour bs ie). track_ok kt"
  unfolding addEntry_def by (cases "entryPoint Number ts hour (fst ie) (snd ie)") (simp_all add: pushPoint_ok)

lemma addEntry_distinct:
  "distinct (map fst bs) \<Longrightarrow> distinct (map fst (addEntry Number ts hour bs ie))"
  unfolding addEntry_def by (cases "entryPoint Number ts hour (fst ie) (snd ie)") (simp_all add: pushPoint_distinct)

lemma entryPoint_Some:
  assumes a: "entryPoint Number ts hour idx entry = Some p"
  shows "\<exists>latRaw lonRaw rest. entry = JArr (latRaw # lonRaw # rest) \<and>
           isFinite (toNum Number latRaw) \<and> isFinite (toNum Number lonRaw) \<and>
           lat p = toNum Number latRaw \<and> lon p = toNum Number lonRaw \<and> 
           snapshotIndex p = hour \<and> timestamp p = ts \<and> balloonId p = ''balloon-'' @ show_nat idx"
proof -
  from a obtain latRaw lonRaw rest where e: "entry = JArr (latRaw # lonRaw # rest)"
    by (cases entry; simp add: entryPoint_def split: list.splits)
  show ?thesis
  proof (cases "isNaN (toNum Number latRaw) \<or> isNaN (toNum Number lonRaw) \<or> \<not> isFinite (toNum Number latRaw) \<or> \<not> isFinite (toNum Number lonRaw)")
    case True
    with a show ?thesis unfolding e entryPoint_def Let_def by simp
  next
    case False
    with a have "p = \<lparr> balloonId = ''balloon-'' @ show_nat idx,
                          timestamp = ts,
                          lat = toNum Number latRaw,
                          lon = toNum Number lonRaw,
                          alt = (case (case rest of
                           [] \<Rightarrow> None
                         | altRaw # _ \<Rightarrow>
                             (if altRaw = JNull then None else Some (toNum Number altRaw))) of
                                   None \<Rightarrow> None
                                 | Some a \<Rightarrow> (if isFinite a then Some a else None)),
                          snapshotIndex = hour \<rparr>"
      unfolding e entryPoint_def Let_def by simp
    with False e show ?thesis by simp
  qed
qed


lemma entryPoint_tags:
  "entryPoint Number ts hour idx entry = Some p \<Longrightarrow> snapshotIndex p = hour \<and> timestamp p = ts \<and> isFinite (lat p) \<and> isFinite (lon p)"
  by (drule entryPoint_Some) auto

lemma addEntry_points:
  assumes "\<forall>kt \<in> set bs. \<forall>q \<in> set (points (snd kt)). Q q"
    and "\<And>p. snapshotIndex p = hour \<Longrightarrow> timestamp p = ts \<Longrightarrow> isFinite (lat p) \<Longrightarrow> isFinite (lon p) \<Longrightarrow> Q p"
  shows "\<forall>kt \<in> set (addEntry Number ts hour bs ie). \<forall>q \<in> set (points (snd kt)). Q q"
proof (cases "entryPoint Number ts hour (fst ie) (snd ie)")
  case None
  with assms(1) show ?thesis by (simp add: addEntry_def)
next
  case (Some p)
  from entryPoint_tags [OF Some] have "Q p" by (simp add: assms(2))
  from pushPoint_points [OF assms(1) this] Some show ?thesis by (simp add: addEntry_def)
qed

lemma foldSnapshot_ok:
  "\<forall>kt \<in> set bs. track_ok kt \<Longrightarrow> \<forall>kt \<in> set (foldSnapshot Number ts hour snapshot bs). track_ok kt"
  unfolding foldSnapshot_def
  by (rule foldl_invariant [where P = "\<lambda>b. \<forall>kt \<in> set b. track_ok kt"]) (simp_all add: addEntry_ok)

lemma foldSnapshot_distinct:
  "distinct (map fst bs) \<Longrightarrow> distinct (map fst (foldSnapshot Number ts hour snapshot bs))"
  unfolding foldSnapshot_def
  by (rule foldl_invariant [where P = "\<lambda>b. distinct (map fst b)"]) (simp_all add: addEntry_distinct)

lemma foldSnapshot_points:
  assumes "\<forall>kt \<in> set bs. \<forall>q \<in> set (points (snd kt)). Q q"
    and "\<And>p. snapshotIndex p = hour \<Longrightarrow> timestamp p = ts \<Longrightarrow> isFinite (lat p) \<Longrightarrow> isFinite (lon p) \<Longrightarrow> Q p"
  shows "\<forall>kt \<in> set (foldSnapshot Number ts hour snapshot bs). \<forall>q \<in> set (points (snd kt)). Q q"
  unfolding foldSnapshot_def
proof (rule foldl_invariant [where P = "\<lambda>b. \<forall>kt \<in> set b. \<forall>q \<in> set (points (snd kt)). Q q"])
  show "\<forall>kt \<in> set bs. \<forall>q \<in> set (points (snd kt)). Q q" by (rule assms(1))
next
  fix b :: balloons and x
  assume "\<forall>kt \<in> set b. \<forall>q \<in> set (points (snd kt)). Q q"
  then show "\<forall>kt \<in> set (addEntry Number ts hour b x). \<forall>q \<in> set (points (snd kt)). Q q"
    by (rule addEntry_points) (rule assms(2))
qed

lemma addHour_ok:
  "\<forall>kt \<in> set bs. track_ok kt \<Longrightarrow> \<forall>kt \<in> set (addHour Number now bs hs). track_ok kt"
  unfolding addHour_def by (cases "snd hs") (simp_all add: foldSnapshot_ok)

lemma addHour_distinct:
  "distinct (map fst bs) \<Longrightarrow> distinct (map fst (addHour Number now bs hs))"
  unfolding addHour_def by (cases "snd hs") (simp_all add: foldSnapshot_distinct)

lemma addHour_points:
  assumes "\<forall>kt \<in> set bs. \<forall>q \<in> set (points (snd kt)). point_ok now snaps q"
    and "hs \<in> set (enumerate 0 snaps)"
  shows "\<forall>kt \<in> set (addHour Number now bs hs). \<forall>q \<in> set (points (snd kt)). point_ok now snaps q"
proof (cases "snd hs")
  case None
  with assms(1) show ?thesis by (simp add: addHour_def)
next
  case (Some s)
  from assms(2) have h: "fst hs < length snaps" "snaps ! fst hs = snd hs"
    by (simp_all add: in_set_enumerate_eq)
  have "\<forall>kt \<in> set (foldSnapshot Number (now - int (fst hs) * 60 * 60 * 1000) (fst hs) s bs).
          \<forall>q \<in> set (points (snd kt)). point_ok now snaps q"
    by (rule foldSnapshot_points [OF assms(1)]) (simp add: point_ok_def h Some)
  with Some show ?thesis by (simp add: addHour_def)
qed

lemma unsorted_ok: "\<forall>kt \<in> set (foldl (addHour Number now) [] (enumerate 0 snaps)). track_ok kt"
  by (rule foldl_invariant [where P = "\<lambda>b. \<forall>kt \<in> set b. track_ok kt"]) (simp_all add: addHour_ok)

lemma unsorted_distinct: "distinct (map fst (foldl (addHour Number now) [] (enumerate 0 snaps)))"
  by (rule foldl_invariant [where P = "\<lambda>b. distinct (map fst b)"]) (simp_all add: addHour_distinct)

lemma unsorted_points:
  "\<forall>kt \<in> set (foldl (addHour Number now) [] (enumerate 0 snaps)).
     \<forall>q \<in> set (points (snd kt)). point_ok now snaps q"
proof (rule foldl_invariant [where P = "\<lambda>b. \<forall>kt \<in> set b. \<forall>q \<in> set (points (snd kt)). point_ok now snaps q"])
  show "\<forall>kt \<in> set []. \<forall>q \<in> set (points (snd kt)). point_ok now snaps q" by simp
next
  fix b :: balloons and x
  assume "x \<in> set (enumerate 0 snaps)"
    and "\<forall>kt \<in> set b. \<forall>q \<in> set (points (snd kt)). point_ok now snaps q"
  then show "\<forall>kt \<in> set (addHour Number now b x). \<forall>q \<in> set (points (snd kt)). point_ok now snaps q"
    by (rule addHour_points [rotated])
qed

lemma sort_key_Nil_iff: "sort_key f xs = [] \<longleftrightarrow> xs = []"
  using length_sort [of f xs] by (metis length_0_conv)

lemma sortTrack_ok: "track_ok kt \<Longrightarrow> track_ok (sortTrack kt)"
  by (simp add: track_ok_def sortTrack_def sort_key_Nil_iff)

lemma sortTrack_sorted: "sorted (map snapshotIndex (points (snd (sortTrack kt))))"
  by (simp add: sortTrack_def)

lemma buildBalloonHistory_distinct: "distinct (map fst (buildBalloonHistory Number now snaps))"
  using unsorted_distinct [of Number now snaps]
  by (simp add: buildBalloonHistory_def sortTrack_def comp_def)

lemma buildBalloonHistory_track_ok:
  "kt \<in> set (buildBalloonHistory Number now snaps) \<Longrightarrow> track_ok kt"
  using unsorted_ok [of Number now snaps] by (auto simp: buildBalloonHistory_def sortTrack_ok)

lemma buildBalloonHistory_point_ok:
  "kt \<in> set (buildBalloonHistory Number now snaps) \<Longrightarrow> q \<in> set (points (snd kt)) \<Longrightarrow> point_ok now snaps q"
  using unsorted_points [of Number now snaps] by (auto simp: buildBalloonHistory_def sortTrack_def)

text \<open>
  C9. Whatever the per-hour snapshots are, every track that \<open>buildBalloonHistory\<close> returns
  has at least one point, all of its points carry the id of the track, and its points are
  in ascending order of \<open>snapshotIndex\<close>.
\<close>

theorem tracks_nonempty_uniform_sorted:
  "\<forall>kt \<in> set (buildBalloonHistory Number now rawSnapshots).
     points (snd kt) \<noteq> [] \<and>
     (\<forall>p \<in> set (points (snd kt)). balloonId p = id_track (snd kt)) \<and>
     sorted (map snapshotIndex (points (snd kt)))"
proof
  fix kt assume kt: "kt \<in> set (buildBalloonHistory Number now rawSnapshots)"
  then obtain kt0 where "kt = sortTrack kt0" by (auto simp: buildBalloonHistory_def)
  with buildBalloonHistory_track_ok [OF kt] sortTrack_sorted [of kt0]
  show "points (snd kt) \<noteq> [] \<and>
     (\<forall>p \<in> set (points (snd kt)). balloonId p = id_track (snd kt)) \<and>
     sorted (map snapshotIndex (points (snd kt)))"
    by (simp add: track_ok_def)
qed

theorem tracks_nonempty_uniform_sorted_witness:
  "(''balloon-0'',
    \<lparr> id_track = ''balloon-0'',
      points = [\<lparr> balloonId = ''balloon-0'', timestamp = 0, lat = Fin 1, lon = Fin 2,
                  alt = None, snapshotIndex = 0 \<rparr>,
                \<lparr> balloonId = ''balloon-0'', timestamp = - 7200000, lat = Fin 3, lon = Fin 4,
                  alt = None, snapshotIndex = 2 \<rparr>] \<rparr>)
     \<in> set (buildBalloonHistory (\<lambda>v. NaN) 0
         [Some [JArr [JNum (Fin 1), JNum (Fin 2)]], None, Some [JArr [JNum (Fin 3), JNum (Fin 4)]]]) \<and>
   sorted (map snapshotIndex
      [\<lparr> balloonId = ''balloon-0'', timestamp = 0, lat = Fin 1, lon = Fin 2,
          alt = None, snapshotIndex = 0 \<rparr>,
       \<lparr> balloonId = ''balloon-0'', timestamp = - 7200000, lat = Fin 3, lon = Fin 4,
          alt = None, snapshotIndex = 2 \<rparr>]) \<and>
   list_all (\<lambda>p. balloonId p = ''balloon-0'')
      [\<lparr> balloonId = ''balloon-0'', timestamp = 0, lat = Fin 1, lon = Fin 2,
          alt = None, snapshotIndex = 0 \<rparr>,
       \<lparr> balloonId = ''balloon-0'', timestamp = - 7200000, lat = Fin 3, lon = Fin 4,
          alt = None, snapshotIndex = 2 \<rparr>]"
proof -
  have mem: "(''balloon-0'',
    \<lparr> id_track = ''balloon-0'',
      points = [\<lparr> balloonId = ''balloon-0'', timestamp = 0, lat = Fin 1, lon = Fin 2,
                  alt = None, snapshotIndex = 0 \<rparr>,
                \<lparr> balloonId = ''balloon-0'', timestamp = - 7200000, lat = Fin 3, lon = Fin 4,
                  alt = None, snapshotIndex = 2 \<rparr>] \<rparr>)
     \<in> set (buildBalloonHistory (\<lambda>v. NaN) 0
         [Some [JArr [JNum (Fin 1), JNum (Fin 2)]], None, Some [JArr [JNum (Fin 3), JNum (Fin 4)]]])"
    by (simp add: buildBalloonHistory_def addHour_def foldSnapshot_def addEntry_def
        entryPoint_def toNum_def pushPoint_def sortTrack_def Let_def show_nat.simps
        numeral_2_eq_2)
  from bspec [OF tracks_nonempty_uniform_sorted mem] show ?thesis
    using mem by (simp add: list_all_iff)
qed

text \<open>
  C1. A record whose latitude is outside \<open>[-90, 90]\<close> is to be dropped by track building.
  The handler's \<open>buildBalloonHistory\<close> checks only that the coordinates are finite: for
  the snapshot \<open>[[10.5, 20.5, 5], [91, 20, 5], ["bad"]]\<close> of hour 0 it returns two tracks,
  and \<open>balloon-1\<close> holds the point with latitude 91.
\<close>

theorem out_of_range_record_kept:
  "buildBalloonHistory Number now
     [Some [JArr [JNum (Fin (21 / 2)), JNum (Fin (41 / 2)), JNum (Fin 5)],
            JArr [JNum (Fin 91), JNum (Fin 20), JNum (Fin 5)],
            JArr [JStr ''bad'']]] =
   [(''balloon-0'',
     \<lparr> id_track = ''balloon-0'',
       points = [\<lparr> balloonId = ''balloon-0'', timestamp = now, lat = Fin (21 / 2),
                   lon = Fin (41 / 2), alt = Some (Fin 5), snapshotIndex = 0 \<rparr>] \<rparr>),
    (''balloon-1'',
     \<lparr> id_track = ''balloon-1'',
       points = [\<lparr> balloonId = ''balloon-1'', timestamp = now, lat = Fin 91,
                   lon = Fin 20, alt = Some (Fin 5), snapshotIndex = 0 \<rparr>] \<rparr>)]"
  by (simp add: buildBalloonHistory_def addHour_def foldSnapshot_def addEntry_def
      entryPoint_def toNum_def pushPoint_def sortTrack_def Let_def show_nat.simps)

text \<open>Every pair of finite coordinates passes the check of the handler.\<close>

lemma entryPoint_keeps_finite:
  "entryPoint Number ts hour idx (JArr [JNum (Fin a), JNum (Fin b)]) =
     Some \<lparr> balloonId = ''balloon-'' @ show_nat idx, timestamp = ts, lat = Fin a, lon = Fin b,
            alt = None, snapshotIndex = hour \<rparr>"
  by (simp add: entryPoint_def toNum_def)

text \<open>
  The sibling in lib/windborne.ts does check the range: on the same snapshot
  \<open>extractPointsFromSnapshot\<close> keeps the first record only, and no point that it returns
  is out of range.
\<close>

lemma extractPointsFromSnapshot_drops_out_of_range:
  "extractPointsFromSnapshot now
     (JArr [JArr [JNum (Fin (21 / 2)), JNum (Fin (41 / 2)), JNum (Fin 5)],
            JArr [JNum (Fin 91), JNum (Fin 20), JNum (Fin 5)],
            JArr [JStr ''bad'']]) 0 =
   [\<lparr> balloonId = ''balloon-0'', timestamp = now, lat = Fin (21 / 2),
       lon = Fin (41 / 2), alt = Some (Fin 5), snapshotIndex = 0 \<rparr>]"
  by (simp add: extractPointsFromSnapshot_def extractEntry_def List.map_filter_simps js_gt_def
      show_nat.simps)

lemma extractEntry_in_range:
  assumes "extractEntry ts hourIndex ie = Some p"
  shows "\<not> js_lt (lat p) (Fin (- 90)) \<and> \<not> js_gt (lat p) (Fin 90) \<and>
         \<not> js_lt (lon p) (Fin (- 180)) \<and> \<not> js_gt (lon p) (Fin 180)"
proof -
  from assms obtain latN lonN rest where e: "snd ie = JArr (JNum latN # JNum lonN # rest)"
    by (auto simp: extractEntry_def split: json.splits list.splits)
  show ?thesis using assms unfolding extractEntry_def e
    by (auto split: if_splits)
qed

text \<open>
  Comparisons with an infinity follow the language, so the range check also drops a
  coordinate that is infinite (\<open>1e999\<close> in the JSON text).
\<close>

lemma js_lt_infinite:
  "js_lt (Fin a) PosInf" "js_lt NegInf (Fin a)" "js_gt PosInf (Fin a)" "js_gt (Fin a) NegInf"
  "\<not> js_lt PosInf (Fin a)" "\<not> js_lt (Fin a) NegInf" "\<not> js_lt NaN x" "\<not> js_lt x NaN"
  by (cases x; simp add: js_gt_def)+

lemma extractEntry_not_infinite:
  assumes "extractEntry ts hourIndex ie = Some p"
  shows "lat p \<noteq> PosInf \<and> lat p \<noteq> NegInf \<and> lon p \<noteq> PosInf \<and> lon p \<noteq> NegInf"
  using extractEntry_in_range [OF assms]
  by (cases "lat p"; cases "lon p"; simp add: js_gt_def)

text \<open>
  C2. A record of hour \<open>h\<close> is to get \<open>snapshotIndex = h\<close> and the timestamp of \<open>h\<close> hours
  ago, also when an earlier hour is unavailable. The handler removes the unavailable
  hours before it builds the tracks: when of the 24 hours only hour 1 is available, its
  record gets index 0 and the timestamp \<open>now\<close>.
\<close>

theorem failed_hour_shifts_index:
  "GET_balloons Number now
     [None, Some [JArr [JNum (Fin 1), JNum (Fin 2), JNum (Fin 3)]],
      None, None, None, None, None, None, None, None, None, None, None,
      None, None, None, None, None, None, None, None, None, None, None] =
   [(''balloon-0'',
     \<lparr> id_track = ''balloon-0'',
       points = [\<lparr> balloonId = ''balloon-0'', timestamp = now, lat = Fin 1,
                   lon = Fin 2, alt = Some (Fin 3), snapshotIndex = 0 \<rparr>] \<rparr>)]"
  by (simp add: GET_balloons_def List.map_filter_simps buildBalloonHistory_def addHour_def
      foldSnapshot_def addEntry_def entryPoint_def toNum_def pushPoint_def sortTrack_def
      Let_def show_nat.simps)

text \<open>How hours become unavailable.\<close>

lemma unavailable_hours:
  "map fetchTreasureSnapshot
     [Response 503 None,
      Response 200 (Some (JArr [JArr [JNum (Fin 1), JNum (Fin 2), JNum (Fin 3)]])),
      NetworkError, Response 200 (Some (JObj [])), Response 404 None, Response 200 None] =
   [None, Some [JArr [JNum (Fin 1), JNum (Fin 2), JNum (Fin 3)]], None, None, None, None]"
  by (simp add: fetchTreasureSnapshot_def res_ok_def)

text \<open>
  \<open>buildBalloonHistory\<close> itself skips an absent snapshot in place
  (\<open>buildBalloonHistory_point_ok\<close> above), and the sibling in lib/windborne.ts keeps the
  index of the hour.
\<close>

lemma buildBalloonHistory_lib_keeps_index:
  "history_balloons (buildBalloonHistory_lib now
      [None, Some (JArr [JArr [JNum (Fin 1), JNum (Fin 2), JNum (Fin 3)]])]) =
   [(''balloon-0'',
     \<lparr> id_track = ''balloon-0'',
       points = [\<lparr> balloonId = ''balloon-0'', timestamp = now - 3600000, lat = Fin 1,
                   lon = Fin 2, alt = Some (Fin 3), snapshotIndex = 1 \<rparr>] \<rparr>)]"
  by (simp add: buildBalloonHistory_lib_def hourPoints_def extractPointsFromSnapshot_def
      extractEntry_def List.map_filter_simps js_gt_def pushPoint_def Let_def show_nat.simps)

section \<open>Properties of the batch request\<close>

lemma transient_Retry: "transient r \<Longrightarrow> attemptOutcome cells r = Retry"
  by (auto simp: transient_def attemptOutcome_def split: response.splits)

lemma fetch_calls [simp]: "calls (snd (fetch e cells w)) = Suc (calls w)"
  by (simp add: fetch_def)

lemma fetch_trace [simp]: "trace (snd (fetch e cells w)) = trace w @ [EvFetch cells]"
  by (simp add: fetch_def effect_def)

lemma fetch_fst [simp]: "fst (fetch e cells w) = respond e (calls w)"
  by (simp add: fetch_def)

lemma sleep_calls [simp]: "calls (sleep e ms w) = calls w"
  by (simp add: sleep_def effect_def)

lemma sleep_trace [simp]: "trace (sleep e ms w) = trace w @ [EvSleep ms]"
  by (simp add: sleep_def effect_def)

lemma retry_step:
  assumes "cells \<noteq> []" "transient (respond e (calls w))" "attempt < maxRetries"
  shows "fetchOpenMeteoBatch e cells attempt w =
         fetchOpenMeteoBatch e cells (Suc attempt)
           (sleep e (500 * (int attempt + 1)) (snd (fetch e cells w)))"
  using assms by (subst fetchOpenMeteoBatch.simps) (simp add: transient_Retry)

lemma retry_last:
  assumes "cells \<noteq> []" "transient (respond e (calls w))" "\<not> attempt < maxRetries"
  shows "fetchOpenMeteoBatch e cells attempt w = (Map.empty, snd (fetch e cells w))"
  using assms by (subst fetchOpenMeteoBatch.simps) (simp add: transient_Retry)

lemma retry_chain:
  assumes ne: "cells \<noteq> []"
    and tr: "\<forall>n < 6. transient (respond e (calls w + n))"
  shows "fst (fetchOpenMeteoBatch e cells 0 w) = Map.empty \<and>
         calls (snd (fetchOpenMeteoBatch e cells 0 w)) = calls w + 6 \<and>
         trace (snd (fetchOpenMeteoBatch e cells 0 w)) =
           trace w @ [EvFetch cells, EvSleep 500, EvFetch cells, EvSleep 1000, EvFetch cells,
                      EvSleep 1500, EvFetch cells, EvSleep 2000, EvFetch cells, EvSleep 2500,
                      EvFetch cells]"
proof -
  have t: "transient (respond e (calls w))" "transient (respond e (Suc (calls w)))"
    "transient (respond e (Suc (Suc (calls w))))"
    "transient (respond e (Suc (Suc (Suc (calls w)))))"
    "transient (respond e (Suc (Suc (Suc (Suc (calls w))))))"
    "transient (respond e (Suc (Suc (Suc (Suc (Suc (calls w)))))))"
    using spec [OF tr, of 0] spec [OF tr, of 1] spec [OF tr, of 2] spec [OF tr, of 3]
      spec [OF tr, of 4] spec [OF tr, of 5] by (simp_all add: numeral_eq_Suc)
  show ?thesis
    by (simp add: retry_step retry_last ne t maxRetries_def)
qed

text \<open>In general a call sends at most \<open>maxRetries + 1\<close> requests.\<close>

lemma fetchOpenMeteoBatch_calls:
  "attempt \<le> maxRetries \<Longrightarrow>
   calls (snd (fetchOpenMeteoBatch e cells attempt w)) \<le> calls w + (maxRetries + 1 - attempt)"
proof (induction e cells attempt w rule: fetchOpenMeteoBatch.induct)
  case (1 e cells attempt w)
  note le = "1.prems"
  show ?case
  proof (cases "cells = []")
    case True
    then show ?thesis by (subst fetchOpenMeteoBatch.simps) simp
  next
    case ne: False
    show ?thesis
    proof (cases "attemptOutcome cells (fst (fetch e cells w))")
      case (Done result)
      with ne le show ?thesis by (subst fetchOpenMeteoBatch.simps) simp
    next
      case Retry
      show ?thesis
      proof (cases "attempt < maxRetries")
        case True
        then have "Suc attempt \<le> maxRetries" by simp
        from "1.IH" [OF ne Retry True this] ne Retry True show ?thesis
          by (subst fetchOpenMeteoBatch.simps) simp
      next
        case False
        with ne Retry le show ?thesis by (subst fetchOpenMeteoBatch.simps) simp
      qed
    qed
  qed
qed

text \<open>
  C3, as stated, fails: when every attempt is answered with status 429 the call sends six
  requests, not at most five.
\<close>

theorem six_attempts_on_429:
  "\<not> calls (snd (fetchOpenMeteoBatch env429 [cell0] 0 world0)) \<le> 5"
  using retry_chain [of "[cell0]" env429 world0]
  by (simp add: env429_def world0_def transient_def)

text \<open>
  C3, amended. When every attempt of a batch call (for at least one cell) ends in a
  transient failure, the call sends exactly six requests, the first and five retries,
  sleeps 500, 1000, 1500, 2000 and 2500 ms between them, and returns the empty mapping.
\<close>

theorem retries_exhausted:
  assumes "cells \<noteq> []"
    and "\<forall>n < 6. transient (respond e (calls w + n))"
  shows "fst (fetchOpenMeteoBatch e cells 0 w) = Map.empty \<and>
         calls (snd (fetchOpenMeteoBatch e cells 0 w)) = calls w + 6 \<and>
         trace (snd (fetchOpenMeteoBatch e cells 0 w)) =
           trace w @ [EvFetch cells, EvSleep 500, EvFetch cells, EvSleep 1000, EvFetch cells,
                      EvSleep 1500, EvFetch cells, EvSleep 2000, EvFetch cells, EvSleep 2500,
                      EvFetch cells]"
  using assms by (rule retry_chain)

theorem retries_exhausted_witness:
  "[cell0] \<noteq> [] \<and>
   transient (respond env429 (calls world0 + 5)) \<and>
   fst (fetchOpenMeteoBatch env429 [cell0] 0 world0) = Map.empty \<and>
   calls (snd (fetchOpenMeteoBatch env429 [cell0] 0 world0)) = 6 \<and>
   trace (snd (fetchOpenMeteoBatch env429 [cell0] 0 world0)) =
     [EvFetch [cell0], EvSleep 500, EvFetch [cell0], EvSleep 1000, EvFetch [cell0],
      EvSleep 1500, EvFetch [cell0], EvSleep 2000, EvFetch [cell0], EvSleep 2500,
      EvFetch [cell0]]"
  using retries_exhausted [of "[cell0]" env429 world0]
  by (simp add: env429_def world0_def transient_def)

section \<open>Properties of the per-balloon weather path (lib/weather.ts)\<close>

text \<open>What a request yields, by the outcome that the network delivers for it.\<close>

lemma currentWeather_reading:
  assumes "res_ok status" and "get_prop data ''current_weather'' = Some cw" and "truthy cw"
  shows "currentWeather (Response status (Some data)) =
           Some \<lparr> temperatureC = numField cw ''temperature'',
                  windSpeedMs = numField cw ''windspeed'',
                  windDirectionDeg = numField cw ''winddirection'' \<rparr>"
  using assms by (auto simp: currentWeather_def)

lemma currentWeather_failed:
  "currentWeather NetworkError = None"
  "\<not> res_ok status \<Longrightarrow> currentWeather (Response status body) = None"
  "currentWeather (Response status None) = None"
  by (simp_all add: currentWeather_def)














text \<open>
  The caller \<open>buildBalloonHistoryWithWeather\<close> passes the object that \<open>getLatestPositions\<close>
  builds; its keys are distinct.
\<close>

lemma getLatestPositions_distinct: "distinct (map fst (getLatestPositions history))"
  unfolding getLatestPositions_def
  by (rule foldl_invariant [where P = "\<lambda>latest. distinct (map fst latest)"])
     (simp_all add: AList.distinct_update)

lemma buildBalloonHistoryWithWeather_weather:
  "buildBalloonHistoryWithWeather now snapshots net sent =
     ((buildBalloonHistory_lib now snapshots,
       fst (fetchWeatherForBalloons net
              (getLatestPositions (buildBalloonHistory_lib now snapshots)) sent)),
      snd (fetchWeatherForBalloons net
              (getLatestPositions (buildBalloonHistory_lib now snapshots)) sent))"
  by (simp add: buildBalloonHistoryWithWeather_def Let_def)



section \<open>Properties of the rate limit\<close>

lemma sleep_clock: "clock w + max 0 ms \<le> clock (sleep e ms w)"
  by (simp add: sleep_def effect_def)

lemma awaitWindow_full:
  assumes "MAX_REQUESTS_PER_WINDOW \<le> requestsInWindow st"
    and "clock (world_of st) - windowStart st < WINDOW_MS"
  shows "awaitWindow e st =
           st\<lparr> world_of := sleep e (WINDOW_MS - (clock (world_of st) - windowStart st)) (world_of st),
               windowStart := clock (sleep e (WINDOW_MS - (clock (world_of st) - windowStart st)) (world_of st)),
               requestsInWindow := 0 \<rparr>"
  using assms by (simp add: awaitWindow_def Let_def)

lemma awaitWindow_elapsed:
  assumes "WINDOW_MS \<le> clock (world_of st) - windowStart st"
  shows "awaitWindow e st = st\<lparr> windowStart := clock (world_of st), requestsInWindow := 0 \<rparr>"
  using assms by (simp add: awaitWindow_def Let_def)

lemma awaitWindow_capacity:
  "requestsInWindow (awaitWindow e st) < MAX_REQUESTS_PER_WINDOW"
  by (simp add: awaitWindow_def Let_def MAX_REQUESTS_PER_WINDOW_def)

lemma batchStep_count:
  assumes "batchStep e batch st = Inr st'"
  shows "requestsInWindow st' = Suc (requestsInWindow (awaitWindow e st))"
  using assms
  by (auto simp: batchStep_def Let_def split: option.splits if_splits)

lemma batchStep_bound:
  assumes "batchStep e batch st = Inr st'"
  shows "requestsInWindow st' \<le> MAX_REQUESTS_PER_WINDOW"
  using batchStep_count [OF assms] awaitWindow_capacity [of e st] by simp

lemma batchLoop_bound:
  "batchLoop e missingCells st = Inr st' \<Longrightarrow>
   requestsInWindow st \<le> MAX_REQUESTS_PER_WINDOW \<Longrightarrow>
   requestsInWindow st' \<le> MAX_REQUESTS_PER_WINDOW"
proof (induction e missingCells st rule: batchLoop.induct)
  case (1 e missingCells st)
  show ?case
  proof (cases "missingCells = []")
    case True
    with "1.prems" show ?thesis by (simp add: batchLoop.simps)
  next
    case False
    show ?thesis
    proof (cases "batchStep e (take WEATHER_BATCH_SIZE missingCells) st")
      case (Inl err)
      with False "1.prems" show ?thesis by (simp add: batchLoop.simps)
    next
      case (Inr st1)
      with False "1.prems" have "batchLoop e (drop WEATHER_BATCH_SIZE missingCells) st1 = Inr st'"
        by (simp add: batchLoop.simps)
      from "1.IH" [OF False Inr this batchStep_bound [OF Inr]] show ?thesis .
    qed
  qed
qed

lemma fetchOpenMeteoBatch_first:
  "cells \<noteq> [] \<Longrightarrow>
   \<exists>rest. trace (snd (fetchOpenMeteoBatch e cells attempt w)) = trace w @ EvFetch cells # rest"
proof (induction e cells attempt w rule: fetchOpenMeteoBatch.induct)
  case (1 e cells attempt w)
  show ?case
  proof (cases "attemptOutcome cells (fst (fetch e cells w))")
    case (Done result)
    with "1.prems" show ?thesis by (subst fetchOpenMeteoBatch.simps) simp
  next
    case Retry
    show ?thesis
    proof (cases "attempt < maxRetries")
      case True
      from "1.IH" [OF "1.prems" Retry True "1.prems"]
      obtain rest where "trace (snd (fetchOpenMeteoBatch e cells (Suc attempt)
            (sleep e (500 * (int attempt + 1)) (snd (fetch e cells w))))) =
          trace (sleep e (500 * (int attempt + 1)) (snd (fetch e cells w))) @ EvFetch cells # rest"
        by blast
      with "1.prems" Retry True show ?thesis by (subst fetchOpenMeteoBatch.simps) simp
    next
      case False
      with "1.prems" Retry show ?thesis by (subst fetchOpenMeteoBatch.simps) simp
    qed
  qed
qed

lemma batchStep_trace:
  assumes "batchStep e batch st = Inr st'" and "batch \<noteq> []"
  shows "\<exists>rest. trace (world_of st') = trace (world_of (awaitWindow e st)) @ EvFetch batch # rest"
proof -
  from fetchOpenMeteoBatch_first [OF assms(2), of e 0 "world_of (awaitWindow e st)"]
  obtain rest where r: "trace (snd (fetchOpenMeteoBatch e batch 0 (world_of (awaitWindow e st)))) =
      trace (world_of (awaitWindow e st)) @ EvFetch batch # rest" by blast
  from assms(1) r show ?thesis
    by (auto simp: batchStep_def Let_def effect_def split: option.splits if_splits)
qed

lemma batchStep_no_client:
  "redis e = None \<Longrightarrow> \<exists>st'. batchStep e batch st = Inr st'"
  by (simp add: batchStep_def Let_def)

text \<open>
  C6. When the counter has reached \<open>MAX_REQUESTS_PER_WINDOW\<close> and the window has not
  elapsed, the next batch first sleeps for the rest of the window, the window is then
  reset (counter 0, start at the clock reading after the sleep), and the request is sent.
  When \<open>WINDOW_MS\<close> or more has elapsed since the start of the window, the window is reset
  without any sleep and the request is sent at once. After every round of the loop, and
  when the loop has ended, the counter is at most \<open>MAX_REQUESTS_PER_WINDOW\<close>.
\<close>

theorem fixed_window_limiter:
  "(MAX_REQUESTS_PER_WINDOW \<le> requestsInWindow st \<and>
    clock (world_of st) - windowStart st < WINDOW_MS \<and>
    batch \<noteq> [] \<and> batchStep e batch st = Inr st1 \<longrightarrow>
      (\<exists>rest. trace (world_of st1) =
         trace (world_of st) @
           EvSleep (WINDOW_MS - (clock (world_of st) - windowStart st)) # EvFetch batch # rest) \<and>
      requestsInWindow (awaitWindow e st) = 0 \<and>
      windowStart (awaitWindow e st) = clock (world_of (awaitWindow e st)) \<and>
      clock (world_of st) + (WINDOW_MS - (clock (world_of st) - windowStart st))
        \<le> clock (world_of (awaitWindow e st)) \<and>
      requestsInWindow st1 = 1) \<and>
   (WINDOW_MS \<le> clock (world_of st) - windowStart st \<and>
    batch \<noteq> [] \<and> batchStep e batch st = Inr st2 \<longrightarrow>
      awaitWindow e st = st\<lparr> windowStart := clock (world_of st), requestsInWindow := 0 \<rparr> \<and>
      (\<exists>rest. trace (world_of st2) = trace (world_of st) @ EvFetch batch # rest) \<and>
      requestsInWindow st2 = 1) \<and>
   (batchStep e batch st = Inr st3 \<longrightarrow> requestsInWindow st3 \<le> MAX_REQUESTS_PER_WINDOW) \<and>
   (batchLoop e missingCells st = Inr st4 \<and>
    requestsInWindow st \<le> MAX_REQUESTS_PER_WINDOW \<longrightarrow>
      requestsInWindow st4 \<le> MAX_REQUESTS_PER_WINDOW)"
proof (intro conjI impI)
  assume a: "MAX_REQUESTS_PER_WINDOW \<le> requestsInWindow st \<and>
    clock (world_of st) - windowStart st < WINDOW_MS \<and>
    batch \<noteq> [] \<and> batchStep e batch st = Inr st1"
  then have full: "MAX_REQUESTS_PER_WINDOW \<le> requestsInWindow st"
    "clock (world_of st) - windowStart st < WINDOW_MS"
    and ne: "batch \<noteq> []" and step: "batchStep e batch st = Inr st1"
    by simp_all
  note aw = awaitWindow_full [OF full, of e]
  from batchStep_trace [OF step ne]
  show "\<exists>rest. trace (world_of st1) =
         trace (world_of st) @
           EvSleep (WINDOW_MS - (clock (world_of st) - windowStart st)) # EvFetch batch # rest"
    by (simp add: aw)
  show "requestsInWindow (awaitWindow e st) = 0" by (simp add: aw)
  show "windowStart (awaitWindow e st) = clock (world_of (awaitWindow e st))"
    by (simp add: aw)
  from sleep_clock [of "world_of st" "WINDOW_MS - (clock (world_of st) - windowStart st)" e]
  show "clock (world_of st) + (WINDOW_MS - (clock (world_of st) - windowStart st))
        \<le> clock (world_of (awaitWindow e st))"
    by (simp add: aw)
  from batchStep_count [OF step] show "requestsInWindow st1 = 1" by (simp add: aw)
next
  assume a: "WINDOW_MS \<le> clock (world_of st) - windowStart st \<and>
    batch \<noteq> [] \<and> batchStep e batch st = Inr st2"
  then have late: "WINDOW_MS \<le> clock (world_of st) - windowStart st"
    and ne: "batch \<noteq> []" and step: "batchStep e batch st = Inr st2"
    by simp_all
  note aw = awaitWindow_elapsed [OF late, of e]
  show "awaitWindow e st = st\<lparr> windowStart := clock (world_of st), requestsInWindow := 0 \<rparr>"
    by (rule aw)
  from batchStep_trace [OF step ne]
  show "\<exists>rest. trace (world_of st2) = trace (world_of st) @ EvFetch batch # rest"
    by (simp add: aw)
  from batchStep_count [OF step] show "requestsInWindow st2 = 1" by (simp add: aw)
next
  assume "batchStep e batch st = Inr st3"
  then show "requestsInWindow st3 \<le> MAX_REQUESTS_PER_WINDOW" by (rule batchStep_bound)
next
  assume "batchLoop e missingCells st = Inr st4 \<and>
    requestsInWindow st \<le> MAX_REQUESTS_PER_WINDOW"
  then show "requestsInWindow st4 \<le> MAX_REQUESTS_PER_WINDOW"
    using batchLoop_bound by blast
qed

theorem fixed_window_limiter_witness:
  "MAX_REQUESTS_PER_WINDOW \<le> requestsInWindow stFull \<and>
   clock (world_of stFull) - windowStart stFull < WINDOW_MS \<and>
   (\<exists>st1. batchStep env36 [cell0] stFull = Inr st1 \<and>
      (\<exists>rest. trace (world_of st1) = EvSleep 59000 # EvFetch [cell0] # rest) \<and>
      requestsInWindow st1 = 1) \<and>
   requestsInWindow (awaitWindow env36 stFull) = 0 \<and>
   windowStart (awaitWindow env36 stFull) = 60000 \<and>
   WINDOW_MS \<le> clock (world_of stLate) - windowStart stLate \<and>
   (\<exists>st2. batchStep env36 [cell0] stLate = Inr st2 \<and>
      (\<exists>rest. trace (world_of st2) = EvFetch [cell0] # rest) \<and>
      requestsInWindow st2 = 1) \<and>
   awaitWindow env36 stLate = stLate\<lparr> windowStart := 70000, requestsInWindow := 0 \<rparr> \<and>
   (\<exists>st4. batchLoop env36 [cell0] stFull = Inr st4 \<and>
      requestsInWindow st4 \<le> MAX_REQUESTS_PER_WINDOW)"
proof -
  have full: "MAX_REQUESTS_PER_WINDOW \<le> requestsInWindow stFull"
    "clock (world_of stFull) - windowStart stFull < WINDOW_MS"
    by (simp_all add: stFull_def MAX_REQUESTS_PER_WINDOW_def WINDOW_MS_def)
  have late: "WINDOW_MS \<le> clock (world_of stLate) - windowStart stLate"
    by (simp add: stLate_def WINDOW_MS_def)
  have none: "redis env36 = None" by (simp add: env36_def)
  from batchStep_no_client [OF none] obtain st1 where
    s1: "batchStep env36 [cell0] stFull = Inr st1" by blast
  from batchStep_no_client [OF none] obtain st2 where
    s2: "batchStep env36 [cell0] stLate = Inr st2" by blast
  have s4: "batchLoop env36 [cell0] stFull = Inr st1"
    by (simp add: batchLoop.simps [of _ "[cell0]"] batchLoop.simps [of _ "[]"] s1
        WEATHER_BATCH_SIZE_def)
  note th1 = fixed_window_limiter [of stFull "[cell0]" env36 st1 st1 st1 "[cell0]" st1]
  note th2 = fixed_window_limiter [of stLate "[cell0]" env36 st2 st2 st2 "[]" stLate]
  from th1 full s1 s4 have
    a1: "\<exists>rest. trace (world_of st1) = EvSleep 59000 # EvFetch [cell0] # rest"
    and a2: "requestsInWindow st1 = 1"
    and a3: "requestsInWindow (awaitWindow env36 stFull) = 0"
    and a4: "windowStart (awaitWindow env36 stFull) = clock (world_of (awaitWindow env36 stFull))"
    and a5: "requestsInWindow st1 \<le> MAX_REQUESTS_PER_WINDOW"
    by (simp_all add: stFull_def WINDOW_MS_def)
  have a6: "clock (world_of (awaitWindow env36 stFull)) = 60000"
    by (simp add: awaitWindow_def stFull_def Let_def MAX_REQUESTS_PER_WINDOW_def WINDOW_MS_def
        sleep_def effect_def env36_def)
  from th2 late s2 have
    b1: "\<exists>rest. trace (world_of st2) = EvFetch [cell0] # rest"
    and b2: "requestsInWindow st2 = 1"
    and b3: "awaitWindow env36 stLate = stLate\<lparr> windowStart := 70000, requestsInWindow := 0 \<rparr>"
    by (simp_all add: stLate_def)
  from full late s1 s2 s4 a1 a2 a3 a4 a5 a6 b1 b2 b3 show ?thesis by simp
qed

section \<open>Properties of grid rounding\<close>

text \<open>
  A real number \<open>x\<close> is a binary64 number when rounding leaves it unchanged,
  \<open>fl x = Fin x\<close>. Integers up to \<open>2 ^ 52\<close> are binary64 numbers, a binary64 number with
  exponent 52 or more is an integer, and so \<open>Math.round\<close> of a binary64 number is one.
\<close>

lemma rne_of_int [simp]: "rne (of_int j) = j"
  by (simp add: rne_def Let_def)

lemma expo_upper:
  assumes "1 \<le> \<bar>x\<bar>"
  shows "\<bar>x\<bar> < 2 ^ nat (expo x + 1)"
proof -
  let ?n = "\<lfloor>\<bar>x\<bar>\<rfloor>"
  from assms have n: "0 < ?n" by simp
  from bitlen_bounds [OF n] have "?n < 2 ^ nat (bitlen ?n)" by simp
  then have "?n + 1 \<le> 2 ^ nat (bitlen ?n)" by simp
  then have "real_of_int (?n + 1) \<le> real_of_int (2 ^ nat (bitlen ?n))"
    by (rule of_int_le_iff [THEN iffD2])
  then have "real_of_int ?n + 1 \<le> 2 ^ nat (bitlen ?n)" by simp
  moreover have "\<bar>x\<bar> < real_of_int ?n + 1" by (rule real_of_int_floor_add_one_gt)
  ultimately have "\<bar>x\<bar> < 2 ^ nat (bitlen ?n)" by (rule less_le_trans [rotated])
  with assms show ?thesis by (simp add: expo_def)
qed

lemma expo_int:
  assumes "k \<noteq> 0" and "\<bar>k\<bar> \<le> 2 ^ 52"
  shows "0 \<le> expo (of_int k) \<and> expo (of_int k) \<le> 52"
proof -
  from assms(1) have pos: "0 < \<bar>k\<bar>" by simp
  then have one: "1 \<le> \<bar>real_of_int k\<bar>" by linarith
  have fl: "\<lfloor>\<bar>real_of_int k\<bar>\<rfloor> = \<bar>k\<bar>"
    by (metis floor_of_int of_int_abs)
  from pos have "bitlen \<bar>k\<bar> \<noteq> 0" by (simp add: bitlen_eq_zero_iff)
  with bitlen_nonneg [of "\<bar>k\<bar>"] have b1: "1 \<le> bitlen \<bar>k\<bar>" by linarith
  from assms(2) have "\<bar>k\<bar> < 2 ^ nat 53" by simp
  then have b2: "bitlen \<bar>k\<bar> \<le> 53" by (simp add: bitlen_le_iff_power)
  from one b1 b2 show ?thesis by (simp add: expo_def fl)
qed

lemma fl_exact:
  assumes nz: "x \<noteq> 0"
    and x: "x = of_int j * 2 powi (max (expo x) (- 1022) - 52)"
    and small: "\<bar>x\<bar> < 2 ^ 1024"
  shows "fl x = Fin x"
proof -
  define q :: real where "q = 2 powi (max (expo x) (- 1022) - 52)"
  have q0: "q \<noteq> 0" by (simp add: q_def)
  from x have xq: "x = of_int j * q" by (simp only: q_def)
  with q0 have "x / q = of_int j" by simp
  then have r: "of_int (rne (x / q)) * q = x" using xq by simp
  have "fl x = (if 2 ^ 1024 \<le> \<bar>of_int (rne (x / q)) * q\<bar>
                then (if 0 < x then PosInf else NegInf) else Fin (of_int (rne (x / q)) * q))"
    using nz unfolding fl_def Let_def q_def by (rule if_not_P)
  also have "\<dots> = Fin x"
  proof -
    from small have "\<not> 2 ^ 1024 \<le> \<bar>x\<bar>" by (simp only: not_le)
    then show ?thesis unfolding r by (rule if_not_P)
  qed
  finally show ?thesis .
qed

lemma fl_int:
  assumes "\<bar>k\<bar> \<le> 2 ^ 52"
  shows "fl (of_int k) = Fin (of_int k)"
proof (cases "k = 0")
  case True
  then show ?thesis by (simp add: fl_def)
next
  case False
  from expo_int [OF False assms] have e: "0 \<le> expo (of_int k)" "expo (of_int k) \<le> 52" by simp_all
  define d where "d = nat (52 - expo (real_of_int k))"
  from e have m: "max (expo (real_of_int k)) (- 1022) - 52 = - int d" by (simp add: d_def)
  have q: "(2::real) powi (- int d) = 1 / 2 ^ d"
    by (simp add: power_int_minus field_simps)
  have small: "\<bar>real_of_int k\<bar> < 2 ^ 1024"
  proof -
    from assms have "real_of_int \<bar>k\<bar> \<le> real_of_int (2 ^ 52)" by (rule of_int_le_iff [THEN iffD2])
    then have "\<bar>real_of_int k\<bar> \<le> 2 ^ 52" by simp
    also have "(2::real) ^ 52 < 2 ^ 1024" by simp
    finally show ?thesis .
  qed
  have A: "real_of_int k = real_of_int (k * 2 ^ d) * (1 / 2 ^ d)" by simp
  have B: "(2::real) powi (max (expo (real_of_int k)) (- 1022) - 52) = 1 / 2 ^ d"
    by (simp only: m q)
  have "real_of_int k = real_of_int (k * 2 ^ d) * 2 powi (max (expo (real_of_int k)) (- 1022) - 52)"
    unfolding B by (rule A)
  moreover from False have "real_of_int k \<noteq> 0" by simp
  ultimately show ?thesis using small by (intro fl_exact)
qed

lemma double_integral:
  assumes d: "fl x = Fin x" and nz: "x \<noteq> 0" and e: "52 \<le> max (expo x) (- 1022)"
  shows "\<exists>j. x = of_int j"
proof -
  define n where "n = nat (max (expo x) (- 1022) - 52)"
  from e have m: "max (expo x) (- 1022) - 52 = int n" by (simp add: n_def)
  have q: "(2::real) powi (int n) = of_int (2 ^ n)" by simp
  define i where "i = rne (x / 2 powi (max (expo x) (- 1022) - 52))"
  from d nz have "Fin (of_int i * 2 powi (max (expo x) (- 1022) - 52)) = Fin x"
    unfolding fl_def Let_def i_def by (simp split: if_splits)
  then have "x = of_int i * 2 powi (max (expo x) (- 1022) - 52)" by simp
  then have "x = of_int i * of_int (2 ^ n)" by (simp only: m q)
  then have "x = of_int (i * 2 ^ n)" by simp
  then show ?thesis ..
qed

lemma double_small:
  assumes e: "max (expo x) (- 1022) < 52"
  shows "\<bar>x\<bar> < 2 ^ 52"
proof (cases "1 \<le> \<bar>x\<bar>")
  case True
  from True e have n: "nat (expo x + 1) \<le> 52"
    by simp
  from expo_upper [OF True] have "\<bar>x\<bar> < 2 ^ nat (expo x + 1)" .
  also from n have "(2::real) ^ nat (expo x + 1) \<le> 2 ^ 52"
    by (rule power_increasing) simp
  finally show ?thesis .
next
  case False
  then have "\<bar>x\<bar> < 1" by simp
  also have "(1::real) < 2 ^ 52" by simp
  finally show ?thesis .
qed

lemma round_double:
  assumes d: "fl x = Fin x"
  shows "fl (of_int \<lfloor>x + 1 / 2\<rfloor>) = Fin (of_int \<lfloor>x + 1 / 2\<rfloor>)"
proof (cases "x = 0")
  case True
  then show ?thesis by (simp add: fl_def)
next
  case nz: False
  show ?thesis
  proof (cases "52 \<le> max (expo x) (- 1022)")
    case True
    from double_integral [OF d nz True] obtain j where j: "x = of_int j" ..
    have "\<lfloor>real_of_int j + 1 / 2\<rfloor> = j" by linarith
    with d j show ?thesis by simp
  next
    case False
    then have "\<bar>x\<bar> < 2 ^ 52" by (intro double_small) simp
    then have "- (2 ^ 52) < x" "x < 2 ^ 52" by (simp_all add: abs_less_iff)
    then have "- (2 ^ 52) \<le> \<lfloor>x + 1 / 2\<rfloor>" "\<lfloor>x + 1 / 2\<rfloor> \<le> 2 ^ 52"
      by (simp_all add: le_floor_iff floor_le_iff)
    then have "\<bar>\<lfloor>x + 1 / 2\<rfloor>\<bar> \<le> 2 ^ 52" by linarith
    then show ?thesis by (rule fl_int)
  qed
qed

lemma roundToGrid_one:
  assumes d: "fl x = Fin x"
  shows "roundToGrid (Fin x) (Fin 1) = Fin (of_int \<lfloor>x + 1 / 2\<rfloor>)"
  by (simp add: roundToGrid_def js_div_def js_mul_def d round_double [OF d])

text \<open>
  The exponent function meets its description, the rounded number is within half a unit
  of the last place, and every result of rounding is a binary64 number.
\<close>

lemma expo_bounds_large:
  assumes "1 \<le> \<bar>x\<bar>"
  shows "2 ^ nat (expo x) \<le> \<bar>x\<bar> \<and> \<bar>x\<bar> < 2 ^ nat (expo x + 1) \<and> 0 \<le> expo x"
proof -
  let ?n = "\<lfloor>\<bar>x\<bar>\<rfloor>"
  from assms have n: "0 < ?n" by simp
  from n have "bitlen ?n \<noteq> 0" by (simp add: bitlen_eq_zero_iff)
  with bitlen_nonneg [of ?n] have b1: "1 \<le> bitlen ?n" by linarith
  from bitlen_bounds [OF n] have lo: "2 ^ nat (bitlen ?n - 1) \<le> ?n" and hi: "?n < 2 ^ nat (bitlen ?n)"
    by simp_all
  from lo have "real_of_int (2 ^ nat (bitlen ?n - 1)) \<le> real_of_int ?n"
    by (rule of_int_le_iff [THEN iffD2])
  then have "2 ^ nat (bitlen ?n - 1) \<le> real_of_int ?n" by simp
  also have "real_of_int ?n \<le> \<bar>x\<bar>" by (rule of_int_floor_le)
  finally have l: "2 ^ nat (bitlen ?n - 1) \<le> \<bar>x\<bar>" .
  from hi have "?n + 1 \<le> 2 ^ nat (bitlen ?n)" by simp
  then have "real_of_int (?n + 1) \<le> real_of_int (2 ^ nat (bitlen ?n))"
    by (rule of_int_le_iff [THEN iffD2])
  then have "real_of_int ?n + 1 \<le> 2 ^ nat (bitlen ?n)" by simp
  moreover have "\<bar>x\<bar> < real_of_int ?n + 1" by (rule real_of_int_floor_add_one_gt)
  ultimately have u: "\<bar>x\<bar> < 2 ^ nat (bitlen ?n)" by (rule less_le_trans [rotated])
  from assms l u b1 show ?thesis by (simp add: expo_def)
qed

lemma expo_bounds_small:
  assumes "x \<noteq> 0" and "\<bar>x\<bar> < 1"
  shows "1 / 2 ^ nat (- expo x) \<le> \<bar>x\<bar> \<and> \<bar>x\<bar> < 2 / 2 ^ nat (- expo x) \<and> expo x < 0"
proof -
  let ?y = "1 / \<bar>x\<bar>"
  let ?m = "\<lceil>?y\<rceil> - 1"
  from assms have xpos: "0 < \<bar>x\<bar>" by simp
  with assms(2) have y1: "1 < ?y" by (simp add: field_simps)
  then have "1 < \<lceil>?y\<rceil>" by (simp add: less_ceiling_iff)
  then have m: "0 < ?m" by simp
  from m have "bitlen ?m \<noteq> 0" by (simp add: bitlen_eq_zero_iff)
  with bitlen_nonneg [of ?m] have b1: "1 \<le> bitlen ?m" by linarith
  define B where "B = nat (bitlen ?m)"
  from b1 have B: "bitlen ?m = int B" "nat (bitlen ?m - 1) = B - 1" "0 < B"
    by (simp_all add: B_def)
  have nb: "nat (bitlen ?m) = B" by (simp add: B_def)
  from bitlen_bounds [OF m] have lo: "2 ^ (B - 1) \<le> ?m" and hi: "?m < 2 ^ B"
    unfolding B(2) nb by blast+
  from hi have "\<lceil>?y\<rceil> \<le> 2 ^ B" by simp
  then have "real_of_int \<lceil>?y\<rceil> \<le> real_of_int (2 ^ B)" by (rule of_int_le_iff [THEN iffD2])
  then have "real_of_int \<lceil>?y\<rceil> \<le> 2 ^ B" by simp
  with le_of_int_ceiling [of ?y] have yB: "?y \<le> 2 ^ B" by linarith
  from lo have "real_of_int (2 ^ (B - 1)) \<le> real_of_int ?m" by (rule of_int_le_iff [THEN iffD2])
  then have "2 ^ (B - 1) \<le> real_of_int \<lceil>?y\<rceil> - 1" by simp
  moreover have "real_of_int \<lceil>?y\<rceil> - 1 < ?y" by linarith
  ultimately have By: "2 ^ (B - 1) < ?y" by linarith
  from yB xpos have l: "1 / 2 ^ B \<le> \<bar>x\<bar>"
    by (simp add: field_simps)
  from By xpos have "\<bar>x\<bar> < 1 / 2 ^ (B - 1)"
    by (simp add: field_simps)
  also from B(3) have "1 / (2::real) ^ (B - 1) = 2 / 2 ^ B"
    by (cases B) simp_all
  finally have u: "\<bar>x\<bar> < 2 / 2 ^ B" .
  from assms(2) have e: "expo x = - int B" by (simp add: expo_def B)
  from l u B(3) show ?thesis by (simp add: e)
qed

lemma expo_bounds:
  assumes "x \<noteq> 0"
  shows "2 powi expo x \<le> \<bar>x\<bar> \<and> \<bar>x\<bar> < 2 powi (expo x + 1)"
proof (cases "1 \<le> \<bar>x\<bar>")
  case True
  from expo_bounds_large [OF True] have e: "0 \<le> expo x"
    and b: "2 ^ nat (expo x) \<le> \<bar>x\<bar>" "\<bar>x\<bar> < 2 ^ nat (expo x + 1)" by simp_all
  from e have "(2::real) powi expo x = 2 ^ nat (expo x)" "(2::real) powi (expo x + 1) = 2 ^ nat (expo x + 1)"
    by (simp_all add: power_int_def)
  with b show ?thesis by simp
next
  case False
  then have s: "\<bar>x\<bar> < 1" by simp
  from expo_bounds_small [OF assms s] have e: "expo x < 0"
    and b: "1 / 2 ^ nat (- expo x) \<le> \<bar>x\<bar>" "\<bar>x\<bar> < 2 / 2 ^ nat (- expo x)" by simp_all
  define B where "B = nat (- expo x)"
  from e have ex: "expo x = - int B" and B0: "0 < B" by (simp_all add: B_def)
  have p1: "(2::real) powi (- int B) = 1 / 2 ^ B"
    by (simp add: power_int_minus field_simps)
  from B0 obtain B' where B': "B = Suc B'" by (cases B) simp_all
  have eq: "- int B + 1 = - int B'" by (simp add: B')
  have "(2::real) powi (- int B + 1) = 2 powi (- int B')" by (simp only: eq)
  also have "\<dots> = 1 / 2 ^ B'"
    by (simp add: power_int_minus field_simps)
  also have "\<dots> = 2 / 2 ^ B" by (simp add: B')
  finally have p2: "(2::real) powi (- int B + 1) = 2 / 2 ^ B" .
  from b have b': "1 / 2 ^ B \<le> \<bar>x\<bar>" "\<bar>x\<bar> < 2 / 2 ^ B" by (simp_all only: B_def)
  have "(2::real) powi expo x = 1 / 2 ^ B" by (simp only: ex p1)
  moreover have "(2::real) powi (expo x + 1) = 2 / 2 ^ B" by (simp only: ex p2)
  ultimately show ?thesis using b' by (simp only: simp_thms)
qed

lemma rne_range: "\<lfloor>y\<rfloor> \<le> rne y \<and> rne y \<le> \<lceil>y\<rceil>"
proof (cases "y = of_int \<lfloor>y\<rfloor>")
  case True
  then have "y - of_int \<lfloor>y\<rfloor> = 0" by simp
  then have "rne y = \<lfloor>y\<rfloor>" by (simp add: rne_def Let_def)
  moreover from True have "\<lceil>y\<rceil> = \<lfloor>y\<rfloor>" by (metis ceiling_of_int)
  ultimately show ?thesis by simp
next
  case False
  then have "\<lceil>y\<rceil> = \<lfloor>y\<rfloor> + 1" by (simp add: ceiling_altdef)
  moreover have "rne y = \<lfloor>y\<rfloor> \<or> rne y = \<lfloor>y\<rfloor> + 1" by (auto simp: rne_def Let_def)
  ultimately show ?thesis by auto
qed

lemma rne_abs_le:
  assumes "\<bar>y\<bar> < of_int N"
  shows "\<bar>rne y\<bar> \<le> N"
proof -
  from assms have "- of_int N < y" "y < of_int N" by (simp_all add: abs_less_iff)
  then have "- N \<le> \<lfloor>y\<rfloor>" "\<lceil>y\<rceil> \<le> N"
    by (simp_all add: le_floor_iff ceiling_le_iff)
  with rne_range [of y] show ?thesis by linarith
qed

lemma rne_abs_ge:
  assumes "of_int N \<le> \<bar>y\<bar>"
  shows "N \<le> \<bar>rne y\<bar>"
proof (cases "0 \<le> y")
  case True
  with assms have "of_int N \<le> y" by simp
  then have "N \<le> \<lfloor>y\<rfloor>" by (simp add: le_floor_iff)
  with rne_range [of y] show ?thesis by linarith
next
  case False
  with assms have "y \<le> - of_int N" by simp
  then have "y \<le> of_int (- N)" by simp
  then have "\<lceil>y\<rceil> \<le> - N" by (simp only: ceiling_le_iff)
  with rne_range [of y] show ?thesis by linarith
qed

lemma expo_unique:
  assumes lo: "2 powi e \<le> \<bar>x\<bar>" and hi: "\<bar>x\<bar> < 2 powi (e + 1)"
  shows "expo x = e"
proof -
  have pos: "(0::real) < 2 powi e" by simp
  have nz: "x \<noteq> 0"
  proof
    assume "x = 0"
    with lo have "(2::real) powi e \<le> 0" by simp
    with pos show False by linarith
  qed
  from expo_bounds [OF nz] have b: "2 powi expo x \<le> \<bar>x\<bar>" "\<bar>x\<bar> < 2 powi (expo x + 1)"
    by simp_all
  have "\<not> expo x + 1 \<le> e"
  proof
    assume "expo x + 1 \<le> e"
    then have "(2::real) powi (expo x + 1) \<le> 2 powi e" by (intro power_int_increasing) simp_all
    with lo b(2) show False by linarith
  qed
  moreover have "\<not> e + 1 \<le> expo x"
  proof
    assume "e + 1 \<le> expo x"
    then have "(2::real) powi (e + 1) \<le> 2 powi expo x" by (intro power_int_increasing) simp_all
    with hi b(1) show False by linarith
  qed
  ultimately show ?thesis by linarith
qed

lemma expo_below:
  assumes nz: "x \<noteq> 0" and hi: "\<bar>x\<bar> < 2 powi e"
  shows "expo x < e"
proof (rule ccontr)
  assume "\<not> expo x < e"
  then have "e \<le> expo x" by simp
  then have "(2::real) powi e \<le> 2 powi expo x" by (intro power_int_increasing) simp_all
  with expo_bounds [OF nz] hi show False by linarith
qed

lemma fl_Fin_D:
  assumes "fl x = Fin r" and "x \<noteq> 0"
  shows "r = of_int (rne (x / 2 powi (max (expo x) (- 1022) - 52))) *
             2 powi (max (expo x) (- 1022) - 52) \<and> \<bar>r\<bar> < 2 ^ 1024"
  using assms by (auto simp: fl_def Let_def split: if_splits)

lemma fl_fixed:
  assumes "fl x = Fin r"
  shows "fl r = Fin r"
proof (cases "x = 0 \<or> r = 0")
  case True
  with assms show ?thesis by (auto simp: fl_def)
next
  case False
  then have nz: "x \<noteq> 0" and rz: "r \<noteq> 0" by simp_all
  define e where "e = max (expo x) (- 1022)"
  define q :: real where "q = 2 powi (e - 52)"
  define j where "j = rne (x / q)"
  have qpos: "0 < q" by (simp add: q_def)
  have e_lo: "- 1022 \<le> e" by (simp add: e_def)
  note D = fl_Fin_D [OF assms nz, folded e_def, folded q_def, folded j_def]
  from D have r: "r = of_int j * q" by (rule conjunct1)
  from D have small: "\<bar>r\<bar> < 2 ^ 1024" by (rule conjunct2)
  have q52: "2 ^ 52 * q = 2 powi e" and q53: "2 ^ 53 * q = 2 powi (e + 1)"
    by (simp_all add: q_def power_int_diff power_int_add)
  have absr: "\<bar>r\<bar> = of_int \<bar>j\<bar> * q" using qpos by (simp add: r abs_mult)
  from expo_bounds [OF nz] have xb: "2 powi expo x \<le> \<bar>x\<bar>" "\<bar>x\<bar> < 2 powi (expo x + 1)"
    by simp_all
  have "(2::real) powi (expo x + 1) \<le> 2 powi (e + 1)"
    by (intro power_int_increasing) (simp_all add: e_def)
  with xb(2) have "\<bar>x\<bar> < 2 ^ 53 * q" by (simp only: q53)
  with qpos have "\<bar>x / q\<bar> < of_int (2 ^ 53)" by (simp add: field_simps)
  then have j_hi: "\<bar>j\<bar> \<le> 2 ^ 53" unfolding j_def by (rule rne_abs_le)
  show ?thesis
  proof (cases "\<bar>j\<bar> = 2 ^ 53")
    case True
    then have "\<bar>r\<bar> = 2 ^ 53 * q" by (simp add: absr)
    then have ar: "\<bar>r\<bar> = 2 powi (e + 1)" by (simp only: q53)
    have "\<bar>r\<bar> < 2 powi (e + 1 + 1)" unfolding ar by (intro power_int_strict_increasing) simp_all
    with ar have er: "expo r = e + 1" by (intro expo_unique) simp_all
    with e_lo have m: "max (expo r) (- 1022) - 52 = (e - 52) + 1" by simp
    have "(2::real) powi ((e - 52) + 1) = 2 powi (e - 52) * 2"
      by (rule power_int_add_1) simp
    then have "(2::real) powi ((e - 52) + 1) = 2 * q"
      by (simp only: q_def mult.commute)
    with m have q': "(2::real) powi (max (expo r) (- 1022) - 52) = 2 * q" by simp
    from True have "j = 2 ^ 53 \<or> j = - (2 ^ 53)" by linarith
    then have "even j" by auto
    then have "j = 2 * (j div 2)" by simp
    then have "real_of_int j = real_of_int (2 * (j div 2))" by (rule arg_cong)
    then have rj: "r = of_int (j div 2) * (2 * q)" by (simp add: r)
    have "r = of_int (j div 2) * 2 powi (max (expo r) (- 1022) - 52)"
      unfolding q' by (rule rj)
    with rz small show ?thesis by (intro fl_exact)
  next
    case False
    with j_hi have j_lt: "\<bar>j\<bar> < 2 ^ 53" by simp
    then have "real_of_int \<bar>j\<bar> < real_of_int (2 ^ 53)" by (rule of_int_less_iff [THEN iffD2])
    with qpos have "\<bar>r\<bar> < 2 ^ 53 * q" by (simp add: absr)
    then have r_hi: "\<bar>r\<bar> < 2 powi (e + 1)" by (simp only: q53)
    have m: "max (expo r) (- 1022) = e"
    proof (cases "- 1022 \<le> expo x")
      case True
      then have ee: "e = expo x" by (simp add: e_def)
      from xb(1) have "2 ^ 52 * q \<le> \<bar>x\<bar>" by (simp only: q52 ee)
      with qpos have "of_int (2 ^ 52) \<le> \<bar>x / q\<bar>" by (simp add: field_simps)
      then have "2 ^ 52 \<le> \<bar>j\<bar>" unfolding j_def by (rule rne_abs_ge)
      then have "real_of_int (2 ^ 52) \<le> real_of_int \<bar>j\<bar>" by (rule of_int_le_iff [THEN iffD2])
      with qpos have "2 ^ 52 * q \<le> \<bar>r\<bar>" by (simp add: absr)
      then have "2 powi e \<le> \<bar>r\<bar>" by (simp only: q52)
      with r_hi have "expo r = e" by (intro expo_unique)
      with e_lo show ?thesis by simp
    next
      case False
      then have ee: "e = - 1022" by (simp add: e_def)
      show ?thesis
      proof (cases "2 powi e \<le> \<bar>r\<bar>")
        case True
        with r_hi have "expo r = e" by (intro expo_unique)
        with e_lo show ?thesis by simp
      next
        case False
        then have "\<bar>r\<bar> < 2 powi e" by simp
        with rz have "expo r < e" by (intro expo_below)
        then show ?thesis by (simp add: ee)
      qed
    qed
    have "r = of_int j * 2 powi (max (expo r) (- 1022) - 52)"
      unfolding m q_def [symmetric] by (rule r)
    with rz small show ?thesis by (intro fl_exact)
  qed
qed

lemma rne_error: "\<bar>of_int (rne y) - y\<bar> \<le> 1 / 2"
proof -
  have "of_int \<lfloor>y\<rfloor> \<le> y" "y < of_int \<lfloor>y\<rfloor> + 1" by linarith+
  then show ?thesis by (auto simp: rne_def Let_def)
qed

lemma fl_error:
  assumes "fl x = Fin r"
  shows "\<bar>r - x\<bar> \<le> 2 powi (max (expo x) (- 1022) - 52) / 2"
proof (cases "x = 0")
  case True
  with assms show ?thesis by (simp add: fl_def)
next
  case False
  define q :: real where "q = 2 powi (max (expo x) (- 1022) - 52)"
  have qpos: "0 < q" by (simp add: q_def)
  note D = fl_Fin_D [OF assms False, folded q_def]
  from D have r: "r = of_int (rne (x / q)) * q" by (rule conjunct1)
  from qpos have "r - x = (of_int (rne (x / q)) - x / q) * q" by (simp add: r field_simps)
  then have "\<bar>r - x\<bar> = \<bar>of_int (rne (x / q)) - x / q\<bar> * q" using qpos by (simp add: abs_mult)
  also have "\<dots> \<le> (1 / 2) * q" using rne_error [of "x / q"] qpos by (intro mult_right_mono) simp_all
  finally show ?thesis by (simp add: q_def)
qed

text \<open>
  C7, as stated, fails in binary64 arithmetic: for \<open>x = 9806597619849566\<close> and grid size 3
  (both binary64 numbers) rounding once gives \<open>9806597619849568\<close> and rounding that again
  gives \<open>9806597619849570\<close>.
\<close>

theorem grid_rounding_not_idempotent:
  "fl 9806597619849566 = Fin 9806597619849566 \<and> fl 3 = Fin 3 \<and>
   roundToGrid (Fin 9806597619849566) (Fin 3) = Fin 9806597619849568 \<and>
   roundToGrid (roundToGrid (Fin 9806597619849566) (Fin 3)) (Fin 3) = Fin 9806597619849570"
  by (simp add: roundToGrid_def js_div_def js_mul_def fl_def expo_def bitlen_def
      compute_floorlog rne_def Let_def)

text \<open>
  C7, amended. With the grid size that the code uses, \<open>GRID_DEGREES = 1\<close>, grid rounding is
  idempotent for every finite binary64 number \<open>x\<close>.
\<close>

theorem grid_rounding_idempotent:
  assumes "fl x = Fin x"
  shows "roundToGrid (roundToGrid (Fin x) GRID_DEGREES) GRID_DEGREES =
         roundToGrid (Fin x) GRID_DEGREES"
proof -
  have "\<lfloor>real_of_int \<lfloor>x + 1 / 2\<rfloor> + 1 / 2\<rfloor> = \<lfloor>x + 1 / 2\<rfloor>" by linarith
  then show ?thesis
    by (simp add: GRID_DEGREES_def roundToGrid_one [OF assms]
        roundToGrid_one [OF round_double [OF assms]])
qed

theorem grid_rounding_idempotent_witness:
  "fl (21 / 2) = Fin (21 / 2) \<and>
   roundToGrid (Fin (21 / 2)) GRID_DEGREES = Fin 11 \<and>
   roundToGrid (roundToGrid (Fin (21 / 2)) GRID_DEGREES) GRID_DEGREES =
     roundToGrid (Fin (21 / 2)) GRID_DEGREES"
proof -
  have d: "fl (21 / 2) = Fin (21 / 2)"
    by (simp add: fl_def expo_def bitlen_def compute_floorlog rne_def Let_def)
  have "roundToGrid (Fin (21 / 2)) GRID_DEGREES = Fin 11"
    by (simp add: GRID_DEGREES_def roundToGrid_one [OF d])
  with d grid_rounding_idempotent [OF d] show ?thesis by simp
qed

section \<open>Properties of the cache\<close>

lemma fetchOpenMeteoBatch_cache_events:
  "filter isCacheEvent (trace (snd (fetchOpenMeteoBatch e cells attempt w))) =
   filter isCacheEvent (trace w)"
proof (induction e cells attempt w rule: fetchOpenMeteoBatch.induct)
  case (1 e cells attempt w)
  show ?case
  proof (cases "cells = []")
    case True
    then show ?thesis by (subst fetchOpenMeteoBatch.simps) simp
  next
    case ne: False
    show ?thesis
    proof (cases "attemptOutcome cells (fst (fetch e cells w))")
      case (Done result)
      with ne show ?thesis by (subst fetchOpenMeteoBatch.simps) simp
    next
      case Retry
      show ?thesis
      proof (cases "attempt < maxRetries")
        case True
        from "1.IH" [OF ne Retry True] ne Retry True show ?thesis
          by (subst fetchOpenMeteoBatch.simps) simp
      next
        case False
        with ne Retry show ?thesis by (subst fetchOpenMeteoBatch.simps) simp
      qed
    qed
  qed
qed

lemma awaitWindow_cache_events:
  "filter isCacheEvent (trace (world_of (awaitWindow e st))) =
   filter isCacheEvent (trace (world_of st))"
  by (simp add: awaitWindow_def Let_def)

lemma batchStep_no_client_events:
  assumes "redis e = None"
  shows "\<exists>st'. batchStep e batch st = Inr st' \<and>
           filter isCacheEvent (trace (world_of st')) = filter isCacheEvent (trace (world_of st))"
  using assms
  by (simp add: batchStep_def Let_def fetchOpenMeteoBatch_cache_events awaitWindow_cache_events)

lemma batchLoop_no_client:
  "redis e = None \<Longrightarrow>
   \<exists>st'. batchLoop e missingCells st = Inr st' \<and>
     filter isCacheEvent (trace (world_of st')) = filter isCacheEvent (trace (world_of st))"
proof (induction e missingCells st rule: batchLoop.induct)
  case (1 e missingCells st)
  show ?case
  proof (cases "missingCells = []")
    case True
    then show ?thesis by (simp add: batchLoop.simps)
  next
    case False
    from batchStep_no_client_events [OF "1.prems", of "take WEATHER_BATCH_SIZE missingCells" st]
    obtain st1 where s1: "batchStep e (take WEATHER_BATCH_SIZE missingCells) st = Inr st1"
      and t1: "filter isCacheEvent (trace (world_of st1)) = filter isCacheEvent (trace (world_of st))"
      by blast
    from "1.IH" [OF False s1 "1.prems"] obtain st' where
      "batchLoop e (drop WEATHER_BATCH_SIZE missingCells) st1 = Inr st'"
      "filter isCacheEvent (trace (world_of st')) = filter isCacheEvent (trace (world_of st1))"
      by blast
    with False s1 t1 show ?thesis by (simp add: batchLoop.simps [of e missingCells])
  qed
qed

lemma lookupCache_no_client:
  "redis e = None \<Longrightarrow> lookupCache e cells w = Inr (Map.empty, cells, w)"
  by (simp add: lookupCache_def)

lemma resolve_no_client:
  assumes "redis e = None"
  shows "\<exists>cw w'. resolveCellWeather e cells w = Inr (cw, w') \<and>
           filter isCacheEvent (trace w') = filter isCacheEvent (trace w)"
proof -
  from batchLoop_no_client [OF assms, of cells
      "\<lparr> cellWeather = Map.empty, requestsInWindow = 0, windowStart = clock w, world_of = w \<rparr>"]
  obtain st' where "batchLoop e cells
      \<lparr> cellWeather = Map.empty, requestsInWindow = 0, windowStart = clock w, world_of = w \<rparr> = Inr st'"
    "filter isCacheEvent (trace (world_of st')) = filter isCacheEvent (trace w)"
    by auto
  then show ?thesis
    by (simp add: resolveCellWeather_def lookupCache_no_client [OF assms])
qed

lemma fetchWeather_no_client:
  assumes "redis e = None"
  shows "\<exists>lw w'. fetchWeatherForAllBalloons e balloons w = Inr (lw, w') \<and>
           filter isCacheEvent (trace w') = filter isCacheEvent (trace w)"
proof -
  from resolve_no_client [OF assms, of "clusterLatestPointsIntoCells e balloons" w]
  obtain cw w' where "resolveCellWeather e (clusterLatestPointsIntoCells e balloons) w = Inr (cw, w')"
    "filter isCacheEvent (trace w') = filter isCacheEvent (trace w)" by blast
  then show ?thesis by (simp add: fetchWeatherForAllBalloons_def Let_def)
qed

lemma fetchOpenMeteoBatch_extends:
  "\<exists>rest. trace (snd (fetchOpenMeteoBatch e cells attempt w)) = trace w @ rest"
proof (cases "cells = []")
  case True
  then show ?thesis by (subst fetchOpenMeteoBatch.simps) simp
next
  case False
  from fetchOpenMeteoBatch_first [OF False, of e attempt w] show ?thesis by blast
qed

lemma awaitWindow_extends:
  "\<exists>rest. trace (world_of (awaitWindow e st)) = trace (world_of st) @ rest"
  by (simp add: awaitWindow_def Let_def)

lemma batchStep_extends:
  assumes "batchStep e batch st = Inr st'"
  shows "\<exists>rest. trace (world_of st') = trace (world_of st) @ rest"
proof -
  from awaitWindow_extends [of e st] obtain r1 where
    a: "trace (world_of (awaitWindow e st)) = trace (world_of st) @ r1" ..
  from fetchOpenMeteoBatch_extends [of e batch 0 "world_of (awaitWindow e st)"] obtain r2 where
    f: "trace (snd (fetchOpenMeteoBatch e batch 0 (world_of (awaitWindow e st)))) =
        trace (world_of (awaitWindow e st)) @ r2" ..
  from assms a f show ?thesis
    by (auto simp: batchStep_def Let_def effect_def split: option.splits if_splits)
qed

lemma batchStep_fetches:
  assumes "batchStep e batch st = Inr st'" and "batch \<noteq> []"
  shows "EvFetch batch \<in> set (trace (world_of st'))"
proof -
  from batchStep_trace [OF assms] obtain rest where
    "trace (world_of st') = trace (world_of (awaitWindow e st)) @ EvFetch batch # rest" ..
  then show ?thesis by simp
qed

lemma batchLoop_extends:
  "batchLoop e missingCells st = Inr st' \<Longrightarrow>
   \<exists>rest. trace (world_of st') = trace (world_of st) @ rest"
proof (induction e missingCells st rule: batchLoop.induct)
  case (1 e missingCells st)
  show ?case
  proof (cases "missingCells = []")
    case True
    with "1.prems" show ?thesis by (simp add: batchLoop.simps)
  next
    case False
    show ?thesis
    proof (cases "batchStep e (take WEATHER_BATCH_SIZE missingCells) st")
      case (Inl err)
      with False "1.prems" show ?thesis by (simp add: batchLoop.simps)
    next
      case (Inr st1)
      with False "1.prems" have l: "batchLoop e (drop WEATHER_BATCH_SIZE missingCells) st1 = Inr st'"
        by (simp add: batchLoop.simps)
      from "1.IH" [OF False Inr l] obtain r2 where
        "trace (world_of st') = trace (world_of st1) @ r2" ..
      moreover from batchStep_extends [OF Inr] obtain r1 where
        "trace (world_of st1) = trace (world_of st) @ r1" ..
      ultimately show ?thesis by simp
    qed
  qed
qed

lemma batchLoop_fetches:
  "batchLoop e missingCells st = Inr st' \<Longrightarrow>
   \<forall>c \<in> set missingCells. \<exists>batch. c \<in> set batch \<and> EvFetch batch \<in> set (trace (world_of st'))"
proof (induction e missingCells st rule: batchLoop.induct)
  case (1 e missingCells st)
  show ?case
  proof (cases "missingCells = []")
    case True
    then show ?thesis by simp
  next
    case False
    show ?thesis
    proof (cases "batchStep e (take WEATHER_BATCH_SIZE missingCells) st")
      case (Inl err)
      with False "1.prems" show ?thesis by (simp add: batchLoop.simps)
    next
      case (Inr st1)
      with False "1.prems" have l: "batchLoop e (drop WEATHER_BATCH_SIZE missingCells) st1 = Inr st'"
        by (simp add: batchLoop.simps)
      from False have ne: "take WEATHER_BATCH_SIZE missingCells \<noteq> []"
        by (simp add: WEATHER_BATCH_SIZE_def)
      from batchLoop_extends [OF l] obtain r2 where
        "trace (world_of st') = trace (world_of st1) @ r2" ..
      with batchStep_fetches [OF Inr ne]
      have first: "EvFetch (take WEATHER_BATCH_SIZE missingCells) \<in> set (trace (world_of st'))"
        by simp
      note rest = "1.IH" [OF False Inr l]
      show ?thesis
      proof
        fix c assume "c \<in> set missingCells"
        then have "c \<in> set (take WEATHER_BATCH_SIZE missingCells) \<or>
            c \<in> set (drop WEATHER_BATCH_SIZE missingCells)"
          by (metis Un_iff append_take_drop_id set_append)
        then show "\<exists>batch. c \<in> set batch \<and> EvFetch batch \<in> set (trace (world_of st'))"
        proof
          assume "c \<in> set (take WEATHER_BATCH_SIZE missingCells)"
          with first show ?thesis by blast
        next
          assume "c \<in> set (drop WEATHER_BATCH_SIZE missingCells)"
          with rest show ?thesis by blast
        qed
      qed
    qed
  qed
qed

lemma fetchWeather_no_client_all:
  assumes "redis e = None"
  shows "\<exists>lw w'. fetchWeatherForAllBalloons e balloons w = Inr (lw, w') \<and>
           filter isCacheEvent (trace w') = filter isCacheEvent (trace w) \<and>
           (\<forall>c \<in> set (clusterLatestPointsIntoCells e balloons).
              \<exists>batch. c \<in> set batch \<and> EvFetch batch \<in> set (trace w'))"
proof -
  let ?cells = "clusterLatestPointsIntoCells e balloons"
  let ?st = "\<lparr> cellWeather = Map.empty, requestsInWindow = 0, windowStart = clock w, world_of = w \<rparr>"
  from batchLoop_no_client [OF assms, of ?cells ?st]
  obtain st' where l: "batchLoop e ?cells ?st = Inr st'"
    and t: "filter isCacheEvent (trace (world_of st')) = filter isCacheEvent (trace w)"
    by auto
  from l have "fetchWeatherForAllBalloons e balloons w = Inr (fanOut ?cells (cellWeather st'), world_of st')"
    by (simp add: fetchWeatherForAllBalloons_def resolveCellWeather_def
        lookupCache_no_client [OF assms] Let_def)
  with t batchLoop_fetches [OF l] show ?thesis by blast
qed

lemma cluster_one:
  "clusterLatestPointsIntoCells env36
     (GET_balloons N0 (clock world0) [Some [JArr [JNum (Fin 1), JNum (Fin 2)]]]) =
   [\<lparr> key = '','', lat_cell = Fin 1, lon_cell = Fin 2, balloonIds = [''balloon-0''] \<rparr>]"
proof -
  have d: "fl 1 = Fin 1" "fl 2 = Fin 2"
    by (simp_all add: fl_def expo_def bitlen_def compute_floorlog rne_def Let_def)
  show ?thesis
    by (simp add: clusterLatestPointsIntoCells_def addToCell_def GET_balloons_def
        List.map_filter_simps buildBalloonHistory_def addHour_def foldSnapshot_def addEntry_def
        entryPoint_def toNum_def pushPoint_def sortTrack_def Let_def show_nat.simps world0_def
        GRID_DEGREES_def roundToGrid_one d env36_def)
qed

text \<open>
  A cached entry that parses to a falsy document is assigned to the key of its cell: the
  cell is not among the missing ones, so no request is sent for it, and it has no
  reading, so its balloons get no entry.
\<close>

lemma cached_falsy_entry:
  assumes "redis e = Some r" and "mget r [weatherCacheKey e c] = Some [Some raw]"
    and "raw \<noteq> []" and "JSON_parse e raw = Some JNull"
  shows "lookupCache e [c] w =
           Inr ([key c \<mapsto> Parsed JNull], [], effect e (EvMget [weatherCacheKey e c]) 0 w)"
    and "readingOf [key c \<mapsto> Parsed JNull] (key c) = None"
  using assms by (simp_all add: lookupCache_def readCached_def readingOf_def Let_def)

lemma fetchWeather_mget_rejects:
  assumes "redis e = Some r"
    and "mget r (map (weatherCacheKey e) (clusterLatestPointsIntoCells e balloons)) = None"
  shows "fetchWeatherForAllBalloons e balloons w = Inl CacheError"
  using assms
  by (simp add: fetchWeatherForAllBalloons_def resolveCellWeather_def lookupCache_def Let_def)

text \<open>
  C4, as stated, fails: with a client whose bulk read is rejected the handler answers
  with status 500, while the same request without a client is answered with status 200.
\<close>

theorem unreachable_cache_fails_request:
  "GET envCacheDown N0 [Some [JArr [JNum (Fin 1), JNum (Fin 2)]]] world0 = Status500 \<and>
   (\<exists>p. GET env36 N0 [Some [JArr [JNum (Fin 1), JNum (Fin 2)]]] world0 = Status200 p)"
proof
  have "fetchWeatherForAllBalloons envCacheDown
          (GET_balloons N0 (clock world0) [Some [JArr [JNum (Fin 1), JNum (Fin 2)]]]) world0 =
        Inl CacheError"
    by (rule fetchWeather_mget_rejects [of _ clientDown])
       (simp_all add: envCacheDown_def clientDown_def)
  then show "GET envCacheDown N0 [Some [JArr [JNum (Fin 1), JNum (Fin 2)]]] world0 = Status500"
    by (simp add: GET_def Let_def)
next
  have "redis env36 = None" by (simp add: env36_def)
  from fetchWeather_no_client [OF this,
      of "GET_balloons N0 (clock world0) [Some [JArr [JNum (Fin 1), JNum (Fin 2)]]]" world0]
  obtain lw w' where "fetchWeatherForAllBalloons env36
      (GET_balloons N0 (clock world0) [Some [JArr [JNum (Fin 1), JNum (Fin 2)]]]) world0 =
      Inr (lw, w')"
    by blast
  then show "\<exists>p. GET env36 N0 [Some [JArr [JNum (Fin 1), JNum (Fin 2)]]] world0 = Status200 p"
    by (simp add: GET_def Let_def)
qed

text \<open>
  C4, amended. When no cache client is configured, the lookup yields no reading and
  leaves every cell missing, no cache read or write is issued, every cell is part of a
  batch that is requested from the remote service, the weather call returns a result and
  the handler answers with status 200. When a client is configured and its bulk read is
  rejected, the handler answers with status 500.
\<close>

theorem cache_not_configured:
  "(redis e = None \<longrightarrow>
      lookupCache e (clusterLatestPointsIntoCells e balloons) w =
        Inr (Map.empty, clusterLatestPointsIntoCells e balloons, w) \<and>
      (\<exists>lw w'. fetchWeatherForAllBalloons e balloons w = Inr (lw, w') \<and>
         filter isCacheEvent (trace w') = filter isCacheEvent (trace w) \<and>
         (\<forall>c \<in> set (clusterLatestPointsIntoCells e balloons).
            \<exists>batch. c \<in> set batch \<and> EvFetch batch \<in> set (trace w'))) \<and>
      (\<exists>p. GET e Number rawSnapshots w = Status200 p)) \<and>
   (redis e = Some r \<and>
    mget r (map (weatherCacheKey e)
      (clusterLatestPointsIntoCells e (GET_balloons Number (clock w) rawSnapshots))) = None \<longrightarrow>
      GET e Number rawSnapshots w = Status500)"
proof (intro conjI impI)
  assume n: "redis e = None"
  show "lookupCache e (clusterLatestPointsIntoCells e balloons) w =
        Inr (Map.empty, clusterLatestPointsIntoCells e balloons, w)"
    by (rule lookupCache_no_client [OF n])
  show "\<exists>lw w'. fetchWeatherForAllBalloons e balloons w = Inr (lw, w') \<and>
         filter isCacheEvent (trace w') = filter isCacheEvent (trace w) \<and>
         (\<forall>c \<in> set (clusterLatestPointsIntoCells e balloons).
            \<exists>batch. c \<in> set batch \<and> EvFetch batch \<in> set (trace w'))"
    by (rule fetchWeather_no_client_all [OF n])
  from fetchWeather_no_client [OF n, of "GET_balloons Number (clock w) rawSnapshots" w]
  obtain lw w' where "fetchWeatherForAllBalloons e (GET_balloons Number (clock w) rawSnapshots) w = Inr (lw, w')"
    by blast
  then show "\<exists>p. GET e Number rawSnapshots w = Status200 p"
    by (simp add: GET_def Let_def)
next
  assume "redis e = Some r \<and>
    mget r (map (weatherCacheKey e)
      (clusterLatestPointsIntoCells e (GET_balloons Number (clock w) rawSnapshots))) = None"
  then have "fetchWeatherForAllBalloons e (GET_balloons Number (clock w) rawSnapshots) w = Inl CacheError"
    using fetchWeather_mget_rejects by blast
  then show "GET e Number rawSnapshots w = Status500"
    by (simp add: GET_def Let_def)
qed

theorem cache_not_configured_witness:
  "redis env36 = None \<and>
   lookupCache env36 (clusterLatestPointsIntoCells env36
       (GET_balloons N0 (clock world0) [Some [JArr [JNum (Fin 1), JNum (Fin 2)]]])) world0 =
     Inr (Map.empty, clusterLatestPointsIntoCells env36
       (GET_balloons N0 (clock world0) [Some [JArr [JNum (Fin 1), JNum (Fin 2)]]]), world0) \<and>
   (\<exists>lw w'. fetchWeatherForAllBalloons env36
       (GET_balloons N0 (clock world0) [Some [JArr [JNum (Fin 1), JNum (Fin 2)]]]) world0 = Inr (lw, w') \<and>
      filter isCacheEvent (trace w') = [] \<and>
      (\<exists>batch. \<lparr> key = '','', lat_cell = Fin 1, lon_cell = Fin 2, balloonIds = [''balloon-0''] \<rparr> \<in> set batch \<and>
         EvFetch batch \<in> set (trace w'))) \<and>
   (\<exists>p. GET env36 N0 [Some [JArr [JNum (Fin 1), JNum (Fin 2)]]] world0 = Status200 p) \<and>
   redis envCacheDown = Some clientDown \<and>
   mget clientDown (map (weatherCacheKey envCacheDown)
      (clusterLatestPointsIntoCells envCacheDown
         (GET_balloons N0 (clock world0) [Some [JArr [JNum (Fin 1), JNum (Fin 2)]]]))) = None \<and>
   GET envCacheDown N0 [Some [JArr [JNum (Fin 1), JNum (Fin 2)]]] world0 = Status500"
proof -
  have n: "redis env36 = None" by (simp add: env36_def)
  have s: "redis envCacheDown = Some clientDown" by (simp add: envCacheDown_def)
  have m: "mget clientDown (map (weatherCacheKey envCacheDown)
      (clusterLatestPointsIntoCells envCacheDown
         (GET_balloons N0 (clock world0) [Some [JArr [JNum (Fin 1), JNum (Fin 2)]]]))) = None"
    by (simp add: clientDown_def)
  note th1 = cache_not_configured [of env36
      "GET_balloons N0 (clock world0) [Some [JArr [JNum (Fin 1), JNum (Fin 2)]]]" world0 N0
      "[Some [JArr [JNum (Fin 1), JNum (Fin 2)]]]" clientDown]
  note th2 = cache_not_configured [of envCacheDown
      "GET_balloons N0 (clock world0) [Some [JArr [JNum (Fin 1), JNum (Fin 2)]]]" world0 N0
      "[Some [JArr [JNum (Fin 1), JNum (Fin 2)]]]" clientDown]
  from th1 n have a: "lookupCache env36 (clusterLatestPointsIntoCells env36
       (GET_balloons N0 (clock world0) [Some [JArr [JNum (Fin 1), JNum (Fin 2)]]])) world0 =
     Inr (Map.empty, clusterLatestPointsIntoCells env36
       (GET_balloons N0 (clock world0) [Some [JArr [JNum (Fin 1), JNum (Fin 2)]]]), world0)"
    and b: "\<exists>lw w'. fetchWeatherForAllBalloons env36
       (GET_balloons N0 (clock world0) [Some [JArr [JNum (Fin 1), JNum (Fin 2)]]]) world0 = Inr (lw, w') \<and>
      filter isCacheEvent (trace w') = filter isCacheEvent (trace world0) \<and>
      (\<forall>c \<in> set (clusterLatestPointsIntoCells env36
           (GET_balloons N0 (clock world0) [Some [JArr [JNum (Fin 1), JNum (Fin 2)]]])).
         \<exists>batch. c \<in> set batch \<and> EvFetch batch \<in> set (trace w'))"
    and c: "\<exists>p. GET env36 N0 [Some [JArr [JNum (Fin 1), JNum (Fin 2)]]] world0 = Status200 p"
    by blast+
  from th2 s m have d: "GET envCacheDown N0 [Some [JArr [JNum (Fin 1), JNum (Fin 2)]]] world0 = Status500"
    by blast
  from b have b': "\<exists>lw w'. fetchWeatherForAllBalloons env36
       (GET_balloons N0 (clock world0) [Some [JArr [JNum (Fin 1), JNum (Fin 2)]]]) world0 = Inr (lw, w') \<and>
      filter isCacheEvent (trace w') = [] \<and>
      (\<exists>batch. \<lparr> key = '','', lat_cell = Fin 1, lon_cell = Fin 2, balloonIds = [''balloon-0''] \<rparr> \<in> set batch \<and>
         EvFetch batch \<in> set (trace w'))"
    unfolding cluster_one by (simp add: world0_def)
  from n s m a b' c d show ?thesis by blast
qed

section \<open>Properties of clustering and fan-out\<close>

lemma members_Nil [simp]: "members [] k = {}"
  by (simp add: members_def)

lemma members_append: "members (xs @ ys) k = members xs k \<union> members ys k"
  by (auto simp: members_def)

lemma members_single: "members [c] k = (if key c = k then set (balloonIds c) else {})"
  by (auto simp: members_def)

lemma members_push:
  "members (map (\<lambda>c. if key c = k then c\<lparr> balloonIds := balloonIds c @ [b] \<rparr> else c) cm) k' =
     (if k' = k \<and> k \<in> key ` set cm then insert b (members cm k') else members cm k')"
proof -
  define f :: "Cell \<Rightarrow> Cell" where "f = (\<lambda>c. if key c = k then c\<lparr> balloonIds := balloonIds c @ [b] \<rparr> else c)"
  have kf: "key (f c) = key c" for c by (simp add: f_def)
  have bf: "set (balloonIds (f c)) = (if key c = k then insert b (set (balloonIds c)) else set (balloonIds c))"
    for c by (simp add: f_def)
  have "members (map f cm) k' = {x. \<exists>c \<in> set cm. key c = k' \<and> x \<in> set (balloonIds (f c))}"
    by (simp add: members_def kf)
  also have "\<dots> = (if k' = k \<and> k \<in> key ` set cm then insert b (members cm k') else members cm k')"
    unfolding bf members_def by auto
  finally show ?thesis by (simp add: f_def)
qed

lemma members_addToCell:
  "members (addToCell e cm t) k =
     (if points t \<noteq> [] \<and> k = cellKey e (hd (points t))
      then insert (id_track t) (members cm k) else members cm k)"
proof (cases "points t")
  case Nil
  then show ?thesis by (simp add: addToCell_def)
next
  case (Cons latest rest)
  let ?k = "cellKey e latest"
  show ?thesis
  proof (cases "find (\<lambda>c. key c = ?k) cm = None")
    case True
    then have nk: "?k \<notin> key ` set cm" by (auto simp: find_None_iff)
    have "addToCell e cm t =
        map (\<lambda>c. if key c = ?k then c\<lparr> balloonIds := balloonIds c @ [id_track t] \<rparr> else c)
          (cm @ [\<lparr> key = ?k, lat_cell = roundToGrid (lat latest) GRID_DEGREES,
                  lon_cell = roundToGrid (lon latest) GRID_DEGREES, balloonIds = [] \<rparr>])"
      using True Cons by (simp add: addToCell_def cellKey_def Let_def)
    then show ?thesis using Cons nk
      by (simp add: members_append members_push members_single)
  next
    case False
    then obtain c0 where "c0 \<in> set cm" "key c0 = ?k" by (auto simp: find_None_iff)
    then have ink: "?k \<in> key ` set cm" by (metis imageI)
    have "addToCell e cm t =
        map (\<lambda>c. if key c = ?k then c\<lparr> balloonIds := balloonIds c @ [id_track t] \<rparr> else c) cm"
      using False Cons by (simp add: addToCell_def cellKey_def Let_def)
    then show ?thesis using Cons ink
      by (simp add: members_push)
  qed
qed

lemma members_foldl:
  "members (foldl (addToCell e) cm ts) k =
     members cm k \<union> {id_track t | t. t \<in> set ts \<and> points t \<noteq> [] \<and> cellKey e (hd (points t)) = k}"
  by (induction ts arbitrary: cm) (auto simp: members_addToCell)

lemma members_cluster:
  "members (clusterLatestPointsIntoCells e balloons) k =
     {id_track t | t. t \<in> snd ` set balloons \<and> points t \<noteq> [] \<and> cellKey e (hd (points t)) = k}"
  by (simp add: clusterLatestPointsIntoCells_def members_foldl)

lemma in_members_cluster:
  "b \<in> members (clusterLatestPointsIntoCells e balloons) k \<longleftrightarrow>
     (\<exists>t \<in> snd ` set balloons. id_track t = b \<and> points t \<noteq> [] \<and> cellKey e (hd (points t)) = k)"
  unfolding members_cluster by blast

lemma assign_all:
  "foldl (\<lambda>m b. m(b \<mapsto> wx)) m bs b' = (if b' \<in> set bs then Some wx else m b')"
  by (induction bs arbitrary: m) auto

lemma fanCell_apply:
  "fanCell cw m c b =
     (if b \<in> set (balloonIds c) \<and> readingOf cw (key c) \<noteq> None then readingOf cw (key c) else m b)"
  by (auto simp: fanCell_def readingOf_def assign_all split: option.splits)

lemma fan_uniform:
  assumes "\<And>c. c \<in> set cells \<Longrightarrow> b \<in> set (balloonIds c) \<Longrightarrow> key c = k"
  shows "foldl (fanCell cw) m cells b =
           (if (\<exists>c \<in> set cells. b \<in> set (balloonIds c)) \<and> readingOf cw k \<noteq> None
            then readingOf cw k else m b)"
  using assms
proof (induction cells arbitrary: m)
  case Nil
  then show ?case by simp
next
  case (Cons c cells)
  have ih: "foldl (fanCell cw) (fanCell cw m c) cells b =
          (if (\<exists>c \<in> set cells. b \<in> set (balloonIds c)) \<and> readingOf cw k \<noteq> None
           then readingOf cw k else fanCell cw m c b)"
    by (rule Cons.IH) (simp add: Cons.prems)
  have kc: "b \<in> set (balloonIds c) \<Longrightarrow> key c = k"
    by (simp add: Cons.prems)
  have fc: "fanCell cw m c b =
      (if b \<in> set (balloonIds c) \<and> readingOf cw (key c) \<noteq> None then readingOf cw (key c)
       else m b)"
    by (rule fanCell_apply)
  have "foldl (fanCell cw) m (c # cells) b = foldl (fanCell cw) (fanCell cw m c) cells b"
    by simp
  also note ih
  also note fc
  finally show ?case using kc by auto
qed

lemma fanOut_track:
  assumes ids: "distinct (map (\<lambda>kt. id_track (snd kt)) balloons)"
    and kt: "kt \<in> set balloons"
  shows "fanOut (clusterLatestPointsIntoCells e balloons) cw (id_track (snd kt)) =
           (if points (snd kt) = [] then None
            else readingOf cw (cellKey e (hd (points (snd kt)))))"
proof -
  let ?cells = "clusterLatestPointsIntoCells e balloons"
  let ?b = "id_track (snd kt)"
  let ?k = "cellKey e (hd (points (snd kt)))"
  from ids have inj: "inj_on (\<lambda>kt. id_track (snd kt)) (set balloons)"
    by (simp add: distinct_map)
  have only: "t = snd kt" if "t \<in> snd ` set balloons" "id_track t = ?b" for t
  proof -
    from that obtain kt' where "kt' \<in> set balloons" "snd kt' = t" by auto
    with that(2) kt inj have "kt' = kt" by (auto dest: inj_onD)
    with \<open>snd kt' = t\<close> show ?thesis by simp
  qed
  have mem: "?b \<in> members ?cells k' \<longleftrightarrow> points (snd kt) \<noteq> [] \<and> k' = ?k" for k'
  proof
    assume "?b \<in> members ?cells k'"
    then have "\<exists>t \<in> snd ` set balloons. id_track t = ?b \<and> points t \<noteq> [] \<and>
        cellKey e (hd (points t)) = k'"
      by (simp only: in_members_cluster)
    then obtain t where t: "t \<in> snd ` set balloons" "id_track t = ?b" "points t \<noteq> []"
      "cellKey e (hd (points t)) = k'"
      by blast
    from only [OF t(1,2)] have "t = snd kt" .
    with t(3,4) show "points (snd kt) \<noteq> [] \<and> k' = ?k" by simp
  next
    assume a: "points (snd kt) \<noteq> [] \<and> k' = ?k"
    from kt have "snd kt \<in> snd ` set balloons" by (rule imageI)
    with a have "\<exists>t \<in> snd ` set balloons. id_track t = ?b \<and> points t \<noteq> [] \<and>
        cellKey e (hd (points t)) = k'"
      by (intro bexI [of _ "snd kt"]) simp_all
    then show "?b \<in> members ?cells k'" by (simp only: in_members_cluster)
  qed
  have uni: "key c = ?k" if "c \<in> set ?cells" "?b \<in> set (balloonIds c)" for c
  proof -
    from that have "?b \<in> members ?cells (key c)" by (auto simp: members_def)
    with mem show ?thesis by simp
  qed
  have ex: "(\<exists>c \<in> set ?cells. ?b \<in> set (balloonIds c)) \<longleftrightarrow> points (snd kt) \<noteq> []"
  proof
    assume "\<exists>c \<in> set ?cells. ?b \<in> set (balloonIds c)"
    then obtain c where "c \<in> set ?cells" "?b \<in> set (balloonIds c)" by blast
    then have "?b \<in> members ?cells (key c)" by (auto simp: members_def)
    with mem show "points (snd kt) \<noteq> []" by simp
  next
    assume "points (snd kt) \<noteq> []"
    with mem have "?b \<in> members ?cells ?k" by simp
    then show "\<exists>c \<in> set ?cells. ?b \<in> set (balloonIds c)" by (auto simp: members_def)
  qed
  have "fanOut ?cells cw ?b =
          (if (\<exists>c \<in> set ?cells. ?b \<in> set (balloonIds c)) \<and> readingOf cw ?k \<noteq> None
           then readingOf cw ?k else None)"
    using fan_uniform [of ?cells ?b ?k cw Map.empty, OF uni] by (simp add: fanOut_def)
  with ex show ?thesis by auto
qed

lemma GET_balloons_distinct_ids:
  "distinct (map (\<lambda>kt. id_track (snd kt)) (GET_balloons Number now rawSnapshots))"
proof -
  let ?bs = "GET_balloons Number now rawSnapshots"
  have eq: "map (\<lambda>kt. id_track (snd kt)) ?bs = map fst ?bs"
    by (rule map_cong [OF refl])
       (simp add: GET_balloons_def buildBalloonHistory_track_ok [unfolded track_ok_def])
  have "distinct (map fst ?bs)"
    unfolding GET_balloons_def by (rule buildBalloonHistory_distinct)
  then show ?thesis by (simp only: eq)
qed

lemma GET_balloons_points:
  "kt \<in> set (GET_balloons Number now rawSnapshots) \<Longrightarrow> points (snd kt) \<noteq> []"
  by (simp add: GET_balloons_def buildBalloonHistory_track_ok [unfolded track_ok_def])

lemma GET_Status200:
  assumes "GET e Number rawSnapshots w = Status200 p"
  shows "payload_balloons p = GET_balloons Number (clock w) rawSnapshots \<and>
         (\<exists>cw w'. resolveCellWeather e (clusterLatestPointsIntoCells e (payload_balloons p)) w =
                     Inr (cw, w') \<and>
                   payload_latestWeather p =
                     fanOut (clusterLatestPointsIntoCells e (payload_balloons p)) cw)"
  using assms
  by (auto simp: GET_def fetchWeatherForAllBalloons_def Let_def split: sum.splits)

text \<open>
  C5. In every response with status 200, the entry of a balloon in the weather map is the
  reading of the cell of its latest position: two balloons whose latest positions have
  the same cell key have the same entry, and a balloon whose cell has no reading (no
  entry in \<open>cellWeather\<close>, or a falsy one) has no entry.
\<close>

theorem same_cell_same_reading:
  assumes "GET e Number rawSnapshots w = Status200 p"
  shows "\<exists>cw w'.
     resolveCellWeather e (clusterLatestPointsIntoCells e (payload_balloons p)) w = Inr (cw, w') \<and>
     (\<forall>kt \<in> set (payload_balloons p).
        points (snd kt) \<noteq> [] \<and>
        payload_latestWeather p (id_track (snd kt)) =
          readingOf cw (cellKey e (hd (points (snd kt))))) \<and>
     (\<forall>kt1 \<in> set (payload_balloons p). \<forall>kt2 \<in> set (payload_balloons p).
        cellKey e (hd (points (snd kt1))) = cellKey e (hd (points (snd kt2))) \<longrightarrow>
        payload_latestWeather p (id_track (snd kt1)) = payload_latestWeather p (id_track (snd kt2)))"
proof -
  from GET_Status200 [OF assms] obtain cw w' where
    bs: "payload_balloons p = GET_balloons Number (clock w) rawSnapshots"
    and res: "resolveCellWeather e (clusterLatestPointsIntoCells e (payload_balloons p)) w = Inr (cw, w')"
    and lw: "payload_latestWeather p = fanOut (clusterLatestPointsIntoCells e (payload_balloons p)) cw"
    by blast
  have ids: "distinct (map (\<lambda>kt. id_track (snd kt)) (payload_balloons p))"
    unfolding bs by (rule GET_balloons_distinct_ids)
  have each: "points (snd kt) \<noteq> [] \<and>
        payload_latestWeather p (id_track (snd kt)) =
          readingOf cw (cellKey e (hd (points (snd kt))))"
    if "kt \<in> set (payload_balloons p)" for kt
  proof -
    from that have "points (snd kt) \<noteq> []" unfolding bs by (rule GET_balloons_points)
    with fanOut_track [OF ids that, of e cw] show ?thesis by (simp add: lw)
  qed
  have "\<forall>kt1 \<in> set (payload_balloons p). \<forall>kt2 \<in> set (payload_balloons p).
        cellKey e (hd (points (snd kt1))) = cellKey e (hd (points (snd kt2))) \<longrightarrow>
        payload_latestWeather p (id_track (snd kt1)) = payload_latestWeather p (id_track (snd kt2))"
    using each by simp
  with res each show ?thesis by blast
qed

theorem same_cell_same_reading_witness:
  "\<exists>p. GET envGrid N0 snapsTwo world0 = Status200 p \<and>
     (''balloon-0'',
      \<lparr> id_track = ''balloon-0'',
        points = [\<lparr> balloonId = ''balloon-0'', timestamp = 0, lat = Fin 1, lon = Fin 2,
                    alt = None, snapshotIndex = 0 \<rparr>] \<rparr>) \<in> set (payload_balloons p) \<and>
     (''balloon-1'',
      \<lparr> id_track = ''balloon-1'',
        points = [\<lparr> balloonId = ''balloon-1'', timestamp = 0, lat = Fin (5 / 4),
                    lon = Fin (7 / 4), alt = None, snapshotIndex = 0 \<rparr>] \<rparr>)
       \<in> set (payload_balloons p) \<and>
     cellKey envGrid \<lparr> balloonId = ''balloon-0'', timestamp = 0, lat = Fin 1, lon = Fin 2,
                       alt = None, snapshotIndex = 0 \<rparr> =
     cellKey envGrid \<lparr> balloonId = ''balloon-1'', timestamp = 0, lat = Fin (5 / 4),
                       lon = Fin (7 / 4), alt = None, snapshotIndex = 0 \<rparr> \<and>
     payload_latestWeather p ''balloon-0'' = payload_latestWeather p ''balloon-1''"
proof -
  let ?t0 = "\<lparr> id_track = ''balloon-0'',
        points = [\<lparr> balloonId = ''balloon-0'', timestamp = 0, lat = Fin 1, lon = Fin 2,
                    alt = None, snapshotIndex = 0 \<rparr>] \<rparr>"
  let ?t1 = "\<lparr> id_track = ''balloon-1'',
        points = [\<lparr> balloonId = ''balloon-1'', timestamp = 0, lat = Fin (5 / 4),
                    lon = Fin (7 / 4), alt = None, snapshotIndex = 0 \<rparr>] \<rparr>"
  have none: "redis envGrid = None" by (simp add: envGrid_def env36_def)
  from fetchWeather_no_client [OF none, of "GET_balloons N0 (clock world0) snapsTwo" world0]
  obtain lw w' where
    "fetchWeatherForAllBalloons envGrid (GET_balloons N0 (clock world0) snapsTwo) world0 =
       Inr (lw, w')"
    by blast
  then obtain p where p: "GET envGrid N0 snapsTwo world0 = Status200 p"
    by (simp add: GET_def Let_def)
  have bs: "GET_balloons N0 (clock world0) snapsTwo = [(''balloon-0'', ?t0), (''balloon-1'', ?t1)]"
    by (simp add: GET_balloons_def List.map_filter_simps buildBalloonHistory_def addHour_def
        foldSnapshot_def addEntry_def entryPoint_def toNum_def pushPoint_def sortTrack_def
        Let_def show_nat.simps snapsTwo_def world0_def)
  from GET_Status200 [OF p] have pb: "payload_balloons p = [(''balloon-0'', ?t0), (''balloon-1'', ?t1)]"
    by (simp add: bs)
  have d: "fl 1 = Fin 1" "fl 2 = Fin 2" "fl (5 / 4) = Fin (5 / 4)" "fl (7 / 4) = Fin (7 / 4)"
    by (simp_all add: fl_def expo_def bitlen_def compute_floorlog rne_def Let_def)
  have keys: "cellKey envGrid \<lparr> balloonId = ''balloon-0'', timestamp = 0, lat = Fin 1, lon = Fin 2,
                       alt = None, snapshotIndex = 0 \<rparr> =
     cellKey envGrid \<lparr> balloonId = ''balloon-1'', timestamp = 0, lat = Fin (5 / 4),
                       lon = Fin (7 / 4), alt = None, snapshotIndex = 0 \<rparr>"
    by (simp add: cellKey_def GRID_DEGREES_def roundToGrid_one d)
  from same_cell_same_reading [OF p] obtain cw w'' where
    all: "\<forall>kt1 \<in> set (payload_balloons p). \<forall>kt2 \<in> set (payload_balloons p).
        cellKey envGrid (hd (points (snd kt1))) = cellKey envGrid (hd (points (snd kt2))) \<longrightarrow>
        payload_latestWeather p (id_track (snd kt1)) = payload_latestWeather p (id_track (snd kt2))"
    by blast
  have m0: "(''balloon-0'', ?t0) \<in> set (payload_balloons p)" by (simp add: pb)
  have m1: "(''balloon-1'', ?t1) \<in> set (payload_balloons p)" by (simp add: pb)
  from bspec [OF bspec [OF all m0] m1] keys
  have "payload_latestWeather p ''balloon-0'' = payload_latestWeather p ''balloon-1''"
    by simp
  with p m0 m1 keys show ?thesis by blast
qed

section \<open>Properties of the unit conversion\<close>

lemma readItem_some:
  assumes "idx < length items"
    and "get_prop (items ! idx) ''current_weather'' = Some cw" and "truthy cw"
  shows "readItem items idx =
           Some \<lparr> temperatureC = numField cw ''temperature'',
                  windSpeedMs = map_option (\<lambda>ws. js_div ws (fl (36 / 10))) (numField cw ''windspeed''),
                  windDirectionDeg = numField cw ''winddirection'' \<rparr>"
  using assms by (simp add: readItem_def split: option.splits)

lemma putItem_other:
  "k \<noteq> key (snd ic) \<Longrightarrow> putItem items m ic k = m k"
  by (simp add: putItem_def split: option.splits)

lemma foldl_putItem_other:
  "k \<notin> key ` set cells \<Longrightarrow> foldl (putItem items) m (enumerate n cells) k = m k"
proof (induction cells arbitrary: m n)
  case Nil
  then show ?case by simp
next
  case (Cons c cells)
  then show ?case by (simp add: putItem_other)
qed

lemma foldl_putItem_at:
  assumes "distinct (map key cells)" and "idx < length cells"
  shows "foldl (putItem items) m (enumerate n cells) (key (cells ! idx)) =
           (case readItem items (n + idx) of
              None \<Rightarrow> m (key (cells ! idx))
            | Some wx \<Rightarrow> Some wx)"
  using assms
proof (induction cells arbitrary: m n idx)
  case Nil
  then show ?case by simp
next
  case (Cons c cells)
  show ?case
  proof (cases idx)
    case 0
    from Cons.prems(1) have "key c \<notin> key ` set cells" by simp
    then have "foldl (putItem items) (putItem items m (n, c)) (enumerate (Suc n) cells) (key c) =
        putItem items m (n, c) (key c)"
      by (rule foldl_putItem_other)
    moreover have "putItem items m (n, c) (key c) =
        (case readItem items n of None \<Rightarrow> m (key c) | Some wx \<Rightarrow> Some wx)"
      by (simp add: putItem_def split: option.splits)
    ultimately show ?thesis unfolding 0 by (simp cong: option.case_cong)
  next
    case (Suc j)
    with Cons.prems have d: "distinct (map key cells)" and j: "j < length cells"
      and nc: "key c \<notin> key ` set cells"
      by auto
    from j have "cells ! j \<in> set cells" by simp
    with nc have ne: "key (cells ! j) \<noteq> key c" by (metis imageI)
    from Cons.IH [OF d j, of "putItem items m (n, c)" "Suc n"] ne show ?thesis
      unfolding Suc by (simp add: putItem_other cong: option.case_cong)
  qed
qed

















lemma batch_first_answer:
  assumes r: "respond e (calls w) = Response status (Some data)" and ok: "res_ok status"
    and it: "itemsOf data = Some items"
    and d: "distinct (map key cells)" and i: "idx < length cells" and j: "idx < length items"
    and cw: "get_prop (items ! idx) ''current_weather'' = Some cw" and t: "truthy cw"
  shows "fst (fetchOpenMeteoBatch e cells attempt w) (key (cells ! idx)) =
           Some \<lparr> temperatureC = numField cw ''temperature'',
                  windSpeedMs = map_option (\<lambda>ws. js_div ws (fl (36 / 10)))
                                  (numField cw ''windspeed''),
                  windDirectionDeg = numField cw ''winddirection'' \<rparr>"
proof -
  from i have ne: "cells \<noteq> []" by auto
  from ok have "attemptOutcome cells (respond e (calls w)) =
      Done (foldl (putItem items) Map.empty (enumerate 0 cells))"
    by (simp add: attemptOutcome_def r it res_ok_def)
  with ne have "fst (fetchOpenMeteoBatch e cells attempt w) =
      foldl (putItem items) Map.empty (enumerate 0 cells)"
    by (subst fetchOpenMeteoBatch.simps) simp
  with foldl_putItem_at [OF d i, of items Map.empty 0] readItem_some [OF j cw t]
  show ?thesis by simp
qed

text \<open>
  The same holds for the answer that follows a transient failure: the call is repeated
  after the sleep, and the reading is built from the answer to the repeated request.
\<close>

lemma batch_answer_after_retry:
  assumes tr: "transient (respond e (calls w))" and at: "attempt < maxRetries"
    and r: "respond e (Suc (calls w)) = Response status (Some data)" and ok: "res_ok status"
    and it: "itemsOf data = Some items"
    and d: "distinct (map key cells)" and i: "idx < length cells" and j: "idx < length items"
    and cw: "get_prop (items ! idx) ''current_weather'' = Some cw" and t: "truthy cw"
  shows "fst (fetchOpenMeteoBatch e cells attempt w) (key (cells ! idx)) =
           Some \<lparr> temperatureC = numField cw ''temperature'',
                  windSpeedMs = map_option (\<lambda>ws. js_div ws (fl (36 / 10)))
                                  (numField cw ''windspeed''),
                  windDirectionDeg = numField cw ''winddirection'' \<rparr>"
proof -
  let ?w = "sleep e (500 * (int attempt + 1)) (snd (fetch e cells w))"
  from i have ne: "cells \<noteq> []" by auto
  have r': "respond e (calls ?w) = Response status (Some data)" by (simp add: r)
  from retry_step [OF ne tr at]
  have "fetchOpenMeteoBatch e cells attempt w = fetchOpenMeteoBatch e cells (Suc attempt) ?w" .
  with batch_first_answer [OF r' ok it d i j cw t, of "Suc attempt"] show ?thesis by simp
qed

text \<open>
  The three shapes of a body: an array of items, an object with an array under
  \<open>current_weather\<close>, and a single item. A body that is \<open>null\<close> makes the property read
  throw.
\<close>

lemma itemsOf_shapes:
  "itemsOf (JArr xs) = Some xs"
  "itemsOf (JObj [(''current_weather'', JArr cws)]) =
     Some (map (\<lambda>cw. JObj [(''current_weather'', cw)]) cws)"
  "itemsOf (JObj [(''current_weather'', JObj kvs)]) = Some [JObj [(''current_weather'', JObj kvs)]]"
  "itemsOf JNull = None"
  by (simp_all add: itemsOf_def)

lemma batch_single_item:
  assumes "respond e (calls w) = Response status (Some (JObj [(''current_weather'', JObj kvs)]))"
    and "res_ok status"
  shows "fst (fetchOpenMeteoBatch e [c] attempt w) (key c) =
           Some \<lparr> temperatureC = numField (JObj kvs) ''temperature'',
                  windSpeedMs = map_option (\<lambda>ws. js_div ws (fl (36 / 10)))
                                  (numField (JObj kvs) ''windspeed''),
                  windDirectionDeg = numField (JObj kvs) ''winddirection'' \<rparr>"
  using batch_first_answer [OF assms itemsOf_shapes(3), of "[c]" 0 "JObj kvs" attempt]
  by simp







end
